theory Spec2Isabelle
  imports Complex_Main "HOL-Library.Word"
begin

unbundle bit_operations_syntax

section \<open>Data model of sdrconnect-scanner.go\<close>

text \<open>
  A shallow embedding of the scan engine of \<open>sdrconnect-scanner.go\<close>: the frequency
  plan (\<open>getScanFrequenciesAndIndexes\<close>), the LO span planner (\<open>getIFBandwidth\<close>,
  \<open>getLOSpans\<close>), the detection rule (\<open>detectSignal\<close>), the report line
  (\<open>showStats\<close>) and the property session (\<open>setSdrconnectProperty\<close>,
  \<open>receiveMessages\<close>). Unsigned and signed Go integers are words, so that their
  arithmetic wraps around as in the program; global variables are arguments and results;
  what the websocket delivers and what the keyboard task sets are inputs.
\<close>

subsection \<open>float64 values\<close>

text \<open>
  The scanner only compares float64 values, takes their minimum and maximum and
  prints them with one decimal. A float64 is modelled by its value: a NaN, an infinity,
  a rational (every finite float64 is a rational) or the negative zero; \<open>Finite 0\<close> is
  the positive zero. The two zeros are equal in comparisons and differ in \<open>max\<close>,
  \<open>min\<close> and in print. The arithmetic of float64 is not modelled:
  \<open>strconv.ParseFloat\<close> and the computation \<open>uint32(sampleRate / 1000)\<close> are
  parameters of the functions that use them.
\<close>

datatype float64 = NaN | NegInf | Finite rat | NegZero | PosInf

text \<open>The operator \<open><\<close>.\<close>

fun f64_lt :: "float64 \<Rightarrow> float64 \<Rightarrow> bool" where
  "f64_lt NaN _ = False"
| "f64_lt _ NaN = False"
| "f64_lt NegInf NegInf = False"
| "f64_lt NegInf _ = True"
| "f64_lt _ NegInf = False"
| "f64_lt PosInf _ = False"
| "f64_lt _ PosInf = True"
| "f64_lt (Finite a) (Finite b) = (a < b)"
| "f64_lt (Finite a) NegZero = (a < 0)"
| "f64_lt NegZero (Finite b) = (0 < b)"
| "f64_lt NegZero NegZero = False"

text \<open>The operator \<open>>=\<close>.\<close>

fun f64_ge :: "float64 \<Rightarrow> float64 \<Rightarrow> bool" where
  "f64_ge NaN _ = False"
| "f64_ge _ NaN = False"
| "f64_ge a b = (\<not> f64_lt a b)"

text \<open>
  Go's builtin \<open>max\<close> and \<open>min\<close> on floats: a NaN argument gives NaN, and the
  negative zero is lower than the positive zero.
\<close>

definition f64_max :: "float64 \<Rightarrow> float64 \<Rightarrow> float64" where
  "f64_max a b =
     (if a = NaN \<or> b = NaN then NaN
      else if f64_lt a b then b
      else if f64_lt b a then a
      else if a = NegZero then b else a)"

definition f64_min :: "float64 \<Rightarrow> float64 \<Rightarrow> float64" where
  "f64_min a b =
     (if a = NaN \<or> b = NaN then NaN
      else if f64_lt b a then b
      else if f64_lt a b then a
      else if b = NegZero then b else a)"

text \<open>\<open>slices.Max\<close> and \<open>slices.Min\<close> panic on an empty slice (\<open>None\<close>).\<close>

fun slices_Max :: "float64 list \<Rightarrow> float64 option" where
  "slices_Max [] = None"
| "slices_Max (x # xs) = Some (foldl f64_max x xs)"

fun slices_Min :: "float64 list \<Rightarrow> float64 option" where
  "slices_Min [] = None"
| "slices_Min (x # xs) = Some (foldl f64_min x xs)"

subsection \<open>Structs\<close>

text \<open>
  \<open>LOSpan\<close>: the fields \<open>from\<close>, \<open>to\<close> and \<open>frequency\<close>. The indexes are Go
  \<open>int\<close>s that count the entries of a plan from 0; they are naturals here.
\<close>

record LOSpan =
  span_from :: nat
  span_to :: nat
  span_frequency :: "64 word"

text \<open>
  \<open>Scan\<close>, with the fields the embedded functions read. \<open>Step\<close> is an int64 and
  \<open>LOOffset\<close> an int32: words, read as two's complement.
\<close>

record Scan =
  Start :: "64 word"
  Stop :: "64 word"
  Step :: "64 word"
  List :: "64 word list"
  DetectPowerThreshold :: float64
  DetectSNRThreshold :: float64
  LOOffset :: "32 word"

datatype DemodulatorMode =
  DemodulatorUnknown | DemodulatorAM | DemodulatorUSB | DemodulatorLSB
  | DemodulatorCW | DemodulatorSAM | DemodulatorNFM | DemodulatorWFM

record SDRconnectSettings =
  DeviceName :: string
  DeviceSerial :: string
  Profile :: string
  SampleRate :: float64
  FilterBandwidth :: "32 word"
  DeviceCenterFrequency :: "64 word"
  DeviceVFOFrequency :: "64 word"
  Demodulator :: DemodulatorMode
  LNAState :: "32 word"
  SquelchEnable :: bool
  SquelchThreshold :: float64
  AGCEnable :: bool
  AGCThreshold :: float64

text \<open>\<open>ReceiveStats\<close>; \<open>countMessages\<close> is a 64-bit Go \<open>int\<close>.\<close>

record ReceiveStats =
  countMessages :: "64 word"
  signalPower :: "float64 list"
  signalSNR :: "float64 list"
  rdsPI :: "16 word list"
  rdsPS :: "string list"

text \<open>The capacity of the four slices of \<open>receiveStats\<close>.\<close>

definition maxStats :: nat where
  "maxStats = 100"

section \<open>IF bandwidth\<close>

definition bandwidthskHz :: "32 word list" where
  "bandwidthskHz = [200, 300, 600, 1536, 5000, 6000, 7000, 8000]"

text \<open>The \<open>for ... range bandwidthskHz\<close> loop of \<open>getIFBandwidth\<close>.\<close>

fun getIFBandwidth_loop :: "32 word \<Rightarrow> 32 word \<Rightarrow> 32 word list \<Rightarrow> 32 word" where
  "getIFBandwidth_loop rate prevBandwidth [] = prevBandwidth * 1000"
| "getIFBandwidth_loop rate prevBandwidth (bandwidth # rest) =
     (if rate < bandwidth then prevBandwidth * 1000
      else getIFBandwidth_loop rate bandwidth rest)"

text \<open>
  \<open>getIFBandwidth\<close>. Its first argument \<open>toRate\<close> stands for the float64 computation
  \<open>uint32(sampleRate / 1000)\<close> of the first statement.
\<close>

definition getIFBandwidth :: "(float64 \<Rightarrow> 32 word) \<Rightarrow> float64 \<Rightarrow> 32 word" where
  "getIFBandwidth toRate sampleRate =
     (let rate = toRate sampleRate;
          prevBandwidth = bandwidthskHz ! 0
      in getIFBandwidth_loop rate prevBandwidth bandwidthskHz)"

text \<open>
  An instance of \<open>toRate\<close> for concrete inputs: the quotient truncated towards zero.
  It is what Go computes where the float64 division is exact and the quotient is within
  uint32, as for the whole multiples of 1000 Hz below 4294967296000 Hz; elsewhere (a
  quotient that is rounded, out of uint32, infinite or NaN) Go's result depends on the
  rounding and on the platform, and this instance is not it.
\<close>

definition truncate_kHz :: "float64 \<Rightarrow> 32 word" where
  "truncate_kHz x =
     (case x of
        Finite q \<Rightarrow> word_of_int (if q < 0 then \<lceil>q / 1000\<rceil> else \<lfloor>q / 1000\<rfloor>)
      | _ \<Rightarrow> 0)"

text \<open>
  The rule as the specification words it: the first bucket whose threshold exceeds the
  rate, else the last bucket.
\<close>

definition spec_IFBandwidth :: "32 word \<Rightarrow> 32 word" where
  "spec_IFBandwidth rate =
     (case find (\<lambda>b. rate < b) bandwidthskHz of
        Some b \<Rightarrow> b * 1000
      | None \<Rightarrow> last bandwidthskHz * 1000)"

section \<open>Signal detection\<close>

text \<open>The two \<open>switch len(...)\<close> statements of \<open>detectSignal\<close>.\<close>

fun signalMax :: "float64 list \<Rightarrow> float64 option" where
  "signalMax [] = Some (Finite (- 1000))"
| "signalMax [x] = Some x"
| "signalMax (x # rest) = slices_Max rest"

definition detectSignal :: "Scan \<Rightarrow> ReceiveStats \<Rightarrow> bool option" where
  "detectSignal scan stats =
     (case signalMax (signalPower stats) of
        None \<Rightarrow> None
      | Some signalPowerMax \<Rightarrow>
          (case signalMax (signalSNR stats) of
             None \<Rightarrow> None
           | Some signalSNRMax \<Rightarrow>
               Some (f64_ge signalPowerMax (DetectPowerThreshold scan)
                     \<or> f64_ge signalSNRMax (DetectSNRThreshold scan))))"

section \<open>Report formatting\<close>

text \<open>The verbs of \<open>fmt.Sprintf\<close> that \<open>showStats\<close> uses.\<close>

definition digit_char :: "nat \<Rightarrow> char" where
  "digit_char d = ''0123456789ABCDEF'' ! d"

fun decimal :: "nat \<Rightarrow> string" where
  "decimal n = (if n < 10 then [digit_char n] else decimal (n div 10) @ [digit_char (n mod 10)])"

declare decimal.simps [simp del]

text \<open>\<open>%d\<close> of a uint64.\<close>

definition format_d :: "64 word \<Rightarrow> string" where
  "format_d w = decimal (unat w)"

text \<open>\<open>%04X\<close> of a uint16: four upper-case hexadecimal digits.\<close>

definition format_04X :: "16 word \<Rightarrow> string" where
  "format_04X w =
     (let n = unat w
      in [digit_char (n div 4096), digit_char (n div 256 mod 16),
          digit_char (n div 16 mod 16), digit_char (n mod 16)])"

text \<open>
  \<open>%.1f\<close> of a float64: the value rounded to one decimal, to the nearest and to the
  even digit at a tie, behind its sign (the negative zero prints its sign);
  \<open>NaN\<close>, \<open>+Inf\<close> and \<open>-Inf\<close> otherwise.
\<close>

definition round_half_even :: "rat \<Rightarrow> int" where
  "round_half_even x =
     (let f = \<lfloor>x\<rfloor>; r = x - of_int f
      in if r < 1 / 2 then f else if 1 / 2 < r then f + 1
         else if even f then f else f + 1)"

definition format_f1 :: "float64 \<Rightarrow> string" where
  "format_f1 x =
     (case x of
        NaN \<Rightarrow> ''NaN''
      | PosInf \<Rightarrow> ''+Inf''
      | NegInf \<Rightarrow> ''-Inf''
      | NegZero \<Rightarrow> ''-0.0''
      | Finite q \<Rightarrow>
          (let t = nat (round_half_even (\<bar>q\<bar> * 10))
           in (if q < 0 then ''-'' else []) @ decimal (t div 10) @ ''.'' @ [digit_char (t mod 10)]))"

fun strings_Join :: "string list \<Rightarrow> string \<Rightarrow> string" where
  "strings_Join [] sep = []"
| "strings_Join [x] sep = x"
| "strings_Join (x # xs) sep = x @ sep @ strings_Join xs sep"

text \<open>
  The fields \<open>showStats\<close> appends for the power samples and for the SNR samples
  (\<open>None\<close>: \<open>slices.Min\<close> or \<open>slices.Max\<close> panics).
\<close>

definition pwrField :: "float64 list \<Rightarrow> string list option" where
  "pwrField samples =
     (if length samples = 1 then
        Some [''pwr='' @ format_f1 (samples ! 0) @ ''dB'']
      else if 1 < length samples then
        (case (slices_Min (drop 1 samples), slices_Max (drop 1 samples)) of
           (Some lo, Some hi) \<Rightarrow>
             Some [''pwr=['' @ format_f1 lo @ ''dB,'' @ format_f1 hi @ ''dB]'']
         | _ \<Rightarrow> None)
      else Some [])"

definition snrField :: "float64 list \<Rightarrow> string list option" where
  "snrField samples =
     (if length samples = 1 then
        Some [''snr='' @ format_f1 (samples ! 0) @ ''dB'']
      else if 1 < length samples then
        (case (slices_Min (drop 1 samples), slices_Max (drop 1 samples)) of
           (Some lo, Some hi) \<Rightarrow>
             Some [''snr=['' @ format_f1 lo @ ''.dB,'' @ format_f1 hi @ ''dB]'']
         | _ \<Rightarrow> None)
      else Some [])"

text \<open>
  The fields for the station identifiers. \<open>rdsPIset\<close> is a Go map, whose iteration
  order is not specified: \<open>mapKeys\<close> lists the distinct identifiers in that order.
\<close>

definition rdsPIField :: "(16 word list \<Rightarrow> 16 word list) \<Rightarrow> 16 word list \<Rightarrow> string list" where
  "rdsPIField mapKeys pis =
     (if 0 < length pis then
        (if length (remdups pis) = 1 then [''RDS/PI='' @ format_04X (pis ! 0)]
         else [''RDS/PI=['' @ strings_Join (map format_04X (mapKeys (remdups pis))) '' '' @ '']''])
      else [])"

text \<open>
  \<open>showStats\<close>: the line handed to \<open>log.Println\<close>. The globals \<open>labels\<close>,
  \<open>sdrconnectSettings\<close> and \<open>receiveStats\<close> are arguments.
\<close>

definition showStats ::
  "(16 word list \<Rightarrow> 16 word list) \<Rightarrow> (64 word \<rightharpoonup> string) \<Rightarrow> SDRconnectSettings \<Rightarrow> ReceiveStats
   \<Rightarrow> string \<Rightarrow> string option" where
  "showStats mapKeys labels settings stats what =
     (let fields0 = (if what \<noteq> [] then [what] else []);
          freq = DeviceVFOFrequency settings;
          fields1 = fields0 @ [''f='' @ format_d freq];
          fields2 = fields1 @
            (if 0 < length (rdsPI stats) then
               (case labels (ucast (rdsPI stats ! 0)) of
                  Some label \<Rightarrow> [''l='' @ label]
                | None \<Rightarrow> [])
             else []);
          fields3 = fields2 @
            (case labels freq of Some label \<Rightarrow> [''l='' @ label] | None \<Rightarrow> [])
      in case pwrField (signalPower stats) of
           None \<Rightarrow> None
         | Some pwr \<Rightarrow>
             (case snrField (signalSNR stats) of
                None \<Rightarrow> None
              | Some snr \<Rightarrow>
                  (let fields4 = fields3 @ pwr @ snr @ rdsPIField mapKeys (rdsPI stats);
                       fields5 = fields4 @
                         (if 0 < length (rdsPS stats) then
                            [''RDS/PS='' @ strings_Join (rdsPS stats) ''|'']
                          else [])
                   in Some (strings_Join fields5 '' ''))))"

section \<open>Frequency plans\<close>

text \<open>
  \<open>getScanFrequenciesAndIndexes\<close> sends the plan over a channel and closes it. The
  model returns the whole sequence sent before the close, each frequency with its index;
  \<open>None\<close> means that the channel is never closed. The two \<open>for\<close> loops compute on
  uint64, so \<open>frequency += step\<close> and \<open>frequency -= step\<close> wrap around.
\<close>

partial_function (option) rangeUp ::
  "64 word \<Rightarrow> 64 word \<Rightarrow> 64 word \<Rightarrow> nat \<Rightarrow> (64 word \<times> nat) list option" where
  "rangeUp stop step frequency index =
     (if frequency \<le> stop then
        Option.bind (rangeUp stop step (frequency + step) (index + 1))
          (\<lambda>rest. Some ((frequency, index) # rest))
      else Some [])"

partial_function (option) rangeDown ::
  "64 word \<Rightarrow> 64 word \<Rightarrow> 64 word \<Rightarrow> nat \<Rightarrow> (64 word \<times> nat) list option" where
  "rangeDown stop step frequency index =
     (if stop \<le> frequency then
        Option.bind (rangeDown stop step (frequency - step) (index + 1))
          (\<lambda>rest. Some ((frequency, index) # rest))
      else Some [])"

declare rangeUp.simps [code]

declare rangeDown.simps [code]

definition getScanFrequenciesAndIndexes :: "Scan \<Rightarrow> (64 word \<times> nat) list option" where
  "getScanFrequenciesAndIndexes scan =
     (if 0 <s Step scan then rangeUp (Stop scan) (Step scan) (Start scan) 0
      else if Step scan <s 0 then rangeDown (Stop scan) (- Step scan) (Start scan) 0
      else if 0 < length (List scan) then
        Some (zip (List scan) [0..<length (List scan)])
      else Some [])"

section \<open>LO spans\<close>

text \<open>Go's builtin \<open>max\<close> on int32.\<close>

definition max_int32 :: "32 word \<Rightarrow> 32 word \<Rightarrow> 32 word" where
  "max_int32 a b = (if a <s b then b else a)"

text \<open>The \<open>LOSpan\<close> literal that \<open>getLOSpans\<close> appends, twice in the source.\<close>

definition newLOSpan :: "nat \<Rightarrow> nat \<Rightarrow> 64 word \<Rightarrow> 32 word \<Rightarrow> LOSpan" where
  "newLOSpan idxFrom idxTo flo loOffset =
     \<lparr>span_from = idxFrom, span_to = idxTo, span_frequency = flo + scast loOffset\<rparr>"

text \<open>
  The loop of \<open>getLOSpans\<close> over the plan, with its variables as arguments, and the
  \<open>append\<close> after the loop.
\<close>

fun getLOSpans_loop ::
  "64 word \<Rightarrow> 32 word \<Rightarrow> LOSpan list \<Rightarrow> 64 word \<Rightarrow> 64 word \<Rightarrow> 64 word \<Rightarrow> nat \<Rightarrow> nat
   \<Rightarrow> (64 word \<times> nat) list \<Rightarrow> LOSpan list" where
  "getLOSpans_loop maxDf loOffset loSpans fmin fmax flo idxFrom idxTo [] =
     loSpans @ [newLOSpan idxFrom idxTo flo loOffset]"
| "getLOSpans_loop maxDf loOffset loSpans fmin fmax flo idxFrom idxTo ((freq, idx) # rest) =
     (let fmin1 = min fmin freq;
          fmax1 = max fmax freq;
          df = fmax1 - fmin1
      in if maxDf < df then
           getLOSpans_loop maxDf loOffset
             (loSpans @ [newLOSpan idxFrom idxTo flo loOffset])
             freq freq ((freq + freq) div 2) idx idx rest
         else
           getLOSpans_loop maxDf loOffset loSpans
             fmin1 fmax1 ((fmin1 + fmax1) div 2) idxFrom idx rest)"

definition getLOSpans_maxDf :: "(float64 \<Rightarrow> 32 word) \<Rightarrow> Scan \<Rightarrow> SDRconnectSettings \<Rightarrow> 64 word" where
  "getLOSpans_maxDf toRate scan settings =
     ucast (getIFBandwidth toRate (SampleRate settings)
            - FilterBandwidth settings
            - max_int32 (LOOffset scan) (- LOOffset scan))"

text \<open>
  \<open>getLOSpans\<close>; \<open>fmin\<close> starts at \<open>math.MaxUint64\<close>, the word \<open>- 1\<close>. It
  returns when the plan's channel is closed.
\<close>

definition getLOSpans ::
  "(float64 \<Rightarrow> 32 word) \<Rightarrow> Scan \<Rightarrow> SDRconnectSettings \<Rightarrow> LOSpan list option" where
  "getLOSpans toRate scan settings =
     (let maxDf = getLOSpans_maxDf toRate scan settings;
          fmin = - 1;
          fmax = 0;
          flo = (fmin + fmax) div 2
      in map_option (getLOSpans_loop maxDf (LOOffset scan) [] fmin fmax flo 0 0)
           (getScanFrequenciesAndIndexes scan))"

section \<open>Library functions the session loop calls\<close>

text \<open>
  Go strings are byte strings: a \<open>char\<close> is a byte. Errors are values: the ones of the
  scanner, the deadline error of the transport, any other error (with its text), and
  \<open>fmt.Errorf\<close> with \<open>%w\<close>, which wraps an error behind a text.
\<close>

datatype error =
  ErrDeadlineExceeded
  | ErrOther string
  | ErrUserCommandNextScan
  | ErrUserCommandTerminate
  | Errorf string error

fun errors_Is :: "error \<Rightarrow> error \<Rightarrow> bool" where
  "errors_Is (Errorf text err) target = (Errorf text err = target \<or> errors_Is err target)"
| "errors_Is err target = (err = target)"

subsection \<open>strconv\<close>

datatype NumError = ErrSyntax | ErrRange

text \<open>
  \<open>strconv.ParseUint(s, 10, bitSize)\<close>: the digits are read from the left on uint64;
  a byte that is no decimal digit gives 0 and a syntax error, a value beyond
  \<open>maxVal\<close> gives \<open>maxVal\<close> and a range error.
\<close>

definition digitValue :: "char \<Rightarrow> 64 word option" where
  "digitValue c =
     (let b = (of_char c :: nat)
      in if 48 \<le> b \<and> b \<le> 57 then Some (of_nat (b - 48)) else None)"

definition cutoff10 :: "64 word" where
  "cutoff10 = (- 1) div 10 + 1"

fun ParseUint_loop :: "64 word \<Rightarrow> 64 word \<Rightarrow> string \<Rightarrow> 64 word \<times> NumError option" where
  "ParseUint_loop maxVal n [] = (n, None)"
| "ParseUint_loop maxVal n (c # s) =
     (case digitValue c of
        None \<Rightarrow> (0, Some ErrSyntax)
      | Some d \<Rightarrow>
          if cutoff10 \<le> n then (maxVal, Some ErrRange)
          else (let n10 = n * 10; n1 = n10 + d
                in if n1 < n10 \<or> maxVal < n1 then (maxVal, Some ErrRange)
                   else ParseUint_loop maxVal n1 s))"

definition ParseUint10 :: "string \<Rightarrow> nat \<Rightarrow> 64 word \<times> NumError option" where
  "ParseUint10 s bitSize =
     (if s = [] then (0, Some ErrSyntax) else ParseUint_loop (2 ^ bitSize - 1) 0 s)"

definition ParseBool :: "string \<Rightarrow> bool \<times> NumError option" where
  "ParseBool str =
     (if str \<in> set [''1'', ''t'', ''T'', ''TRUE'', ''true'', ''True''] then (True, None)
      else if str \<in> set [''0'', ''f'', ''F'', ''FALSE'', ''false'', ''False''] then (False, None)
      else (False, Some ErrSyntax))"

text \<open>
  The parsers that are parameters: \<open>strconv.ParseFloat(s, 64)\<close>, which computes on
  float64, and \<open>uint32\<close> of \<open>strconv.ParseUint(s, 0, 32)\<close>, whose base 0 reads
  prefixes and underscores. Both give the value the scanner keeps; it drops their errors.
\<close>

record Strconv =
  ParseFloat :: "string \<Rightarrow> float64"
  ParseUint0_32 :: "string \<Rightarrow> 32 word"

subsection \<open>ParseDemodulatorMode\<close>

definition ParseDemodulatorMode :: "string \<Rightarrow> DemodulatorMode \<times> error option" where
  "ParseDemodulatorMode dmstring =
     (if dmstring = ''AM'' then (DemodulatorAM, None)
      else if dmstring = ''USB'' then (DemodulatorUSB, None)
      else if dmstring = ''LSB'' then (DemodulatorLSB, None)
      else if dmstring = ''CW'' then (DemodulatorCW, None)
      else if dmstring = ''SAM'' then (DemodulatorSAM, None)
      else if dmstring = ''NFM'' then (DemodulatorNFM, None)
      else if dmstring = ''WFM'' then (DemodulatorWFM, None)
      else (DemodulatorUnknown, Some (ErrOther (''invalid demodulator mode: '' @ dmstring))))"

subsection \<open>strings.TrimSpace\<close>

text \<open>
  \<open>strings.TrimSpace\<close> removes the leading and the trailing white space, as
  \<open>unicode.IsSpace\<close> defines it, rune by rune. On the bytes of a UTF-8 string (the
  JSON decoder delivers no other) a white space rune is one of the six ASCII bytes, or
  one of the two-byte and three-byte sequences below: U+0085, U+00A0; U+1680,
  U+2000 to U+200A, U+2028, U+2029, U+202F, U+205F, U+3000.
\<close>

definition asciiSpace :: "char \<Rightarrow> bool" where
  "asciiSpace c = (let b = (of_char c :: nat) in (9 \<le> b \<and> b \<le> 13) \<or> b = 32)"

definition space2 :: "char \<Rightarrow> char \<Rightarrow> bool" where
  "space2 c1 c2 =
     (let b1 = (of_char c1 :: nat); b2 = (of_char c2 :: nat)
      in b1 = 0xC2 \<and> (b2 = 0x85 \<or> b2 = 0xA0))"

definition space3 :: "char \<Rightarrow> char \<Rightarrow> char \<Rightarrow> bool" where
  "space3 c1 c2 c3 =
     (let b1 = (of_char c1 :: nat); b2 = (of_char c2 :: nat); b3 = (of_char c3 :: nat)
      in (b1 = 0xE1 \<and> b2 = 0x9A \<and> b3 = 0x80)
         \<or> (b1 = 0xE2 \<and> b2 = 0x80
             \<and> ((0x80 \<le> b3 \<and> b3 \<le> 0x8A) \<or> b3 = 0xA8 \<or> b3 = 0xA9 \<or> b3 = 0xAF))
         \<or> (b1 = 0xE2 \<and> b2 = 0x81 \<and> b3 = 0x9F)
         \<or> (b1 = 0xE3 \<and> b2 = 0x80 \<and> b3 = 0x80))"

text \<open>
  Dropping white space runes from the front of a byte list; \<open>p2\<close> and \<open>p3\<close>
  recognise the sequences of two and three bytes.
\<close>

fun trimFront ::
  "(char \<Rightarrow> char \<Rightarrow> bool) \<Rightarrow> (char \<Rightarrow> char \<Rightarrow> char \<Rightarrow> bool) \<Rightarrow> string \<Rightarrow> string" where
  "trimFront p2 p3 (c1 # c2 # c3 # s) =
     (if asciiSpace c1 then trimFront p2 p3 (c2 # c3 # s)
      else if p2 c1 c2 then trimFront p2 p3 (c3 # s)
      else if p3 c1 c2 c3 then trimFront p2 p3 s
      else c1 # c2 # c3 # s)"
| "trimFront p2 p3 [c1, c2] =
     (if asciiSpace c1 then trimFront p2 p3 [c2]
      else if p2 c1 c2 then []
      else [c1, c2])"
| "trimFront p2 p3 [c1] = (if asciiSpace c1 then [] else [c1])"
| "trimFront p2 p3 [] = []"

definition TrimLeft :: "string \<Rightarrow> string" where
  "TrimLeft s = trimFront space2 space3 s"

text \<open>From the end, the bytes of a sequence come in the opposite order.\<close>

definition TrimRight :: "string \<Rightarrow> string" where
  "TrimRight s = rev (trimFront (\<lambda>c2 c1. space2 c1 c2) (\<lambda>c3 c2 c1. space3 c1 c2 c3) (rev s))"

definition TrimSpace :: "string \<Rightarrow> string" where
  "TrimSpace s = TrimRight (TrimLeft s)"

section \<open>The property session\<close>

record Message =
  EventType :: string
  Property :: string
  Value :: string

text \<open>The zero value of \<open>var message Message\<close>.\<close>

definition zeroMessage :: Message where
  "zeroMessage = \<lparr>EventType = [], Property = [], Value = []\<rparr>"

text \<open>
  A JSON frame, as far as \<open>Message\<close> reads it: for each of the keys \<open>event_type\<close>,
  \<open>property\<close> and \<open>value\<close> the string the frame gives it, or \<open>None\<close> when the
  frame has no such key or gives it \<open>null\<close>.
\<close>

record Frame =
  event_type_key :: "string option"
  property_key :: "string option"
  value_key :: "string option"

text \<open>
  \<open>json.Unmarshal\<close> of a frame into a \<open>Message\<close> variable, which is how
  \<open>websocket.JSON.Receive(ws, &message)\<close> decodes: a field whose key the frame gives
  is assigned, every other field keeps the value it had. The session functions declare
  \<open>message\<close> once, before their loop, so that a field a frame leaves out keeps what an
  earlier frame gave it.
\<close>

definition jsonUnmarshal :: "Frame \<Rightarrow> Message \<Rightarrow> Message" where
  "jsonUnmarshal frame message =
     \<lparr>EventType = (case event_type_key frame of Some s \<Rightarrow> s | None \<Rightarrow> EventType message),
      Property = (case property_key frame of Some s \<Rightarrow> s | None \<Rightarrow> Property message),
      Value = (case value_key frame of Some s \<Rightarrow> s | None \<Rightarrow> Value message)\<rparr>"

text \<open>
  What one \<open>websocket.JSON.Receive\<close> gives: a frame that was decoded, or an error (of
  the connection, of its deadline, or of the decoder on a frame that is no JSON object
  of strings). The read deadline of the connection is what \<open>ws.SetReadDeadline\<close> last
  set: none (\<open>time.Time{}\<close>), a timeout from now, or now.
\<close>

datatype read = Received Frame | ReadError error

datatype deadline = NoDeadline | DeadlineAfter nat | DeadlineNow

text \<open>The global variables the session functions read and write.\<close>

record Globals =
  sdrconnectSettings :: SDRconnectSettings
  receiveStats :: ReceiveStats
  userCommandTogglePause :: bool
  userCommandNextScan :: bool
  userCommandTerminate :: bool
  wsReadDeadline :: deadline

text \<open>
  \<open>getKeyPresses\<close> runs beside the scan and only sets the three flags. A session
  function sees, with every read, the flags that were set while the read was waiting.
\<close>

record KeyPresses =
  pressTogglePause :: bool
  pressNextScan :: bool
  pressTerminate :: bool

definition raiseCommands :: "KeyPresses \<Rightarrow> Globals \<Rightarrow> Globals" where
  "raiseCommands keys g =
     g\<lparr>userCommandTogglePause := userCommandTogglePause g \<or> pressTogglePause keys,
       userCommandNextScan := userCommandNextScan g \<or> pressNextScan keys,
       userCommandTerminate := userCommandTerminate g \<or> pressTerminate keys\<rparr>"

type_synonym transport = "(KeyPresses \<times> read) list"

subsection \<open>setSdrconnectProperty\<close>

definition waitSetProperty :: nat where
  "waitSetProperty = 2000"

text \<open>
  The \<open>for\<close> loop of \<open>setSdrconnectProperty\<close> over the reads to come, with the
  local \<open>message\<close> as an argument: every frame is decoded into it. The result is
  \<open>(actualValue, changed, err)\<close>, with the reads left; \<open>None\<close> when the reads end
  before the function returns.
\<close>

fun setSdrconnectProperty_loop ::
  "string \<Rightarrow> string \<Rightarrow> Message \<Rightarrow> Globals \<Rightarrow> transport
   \<Rightarrow> ((string \<times> bool \<times> error option) \<times> Globals \<times> transport) option" where
  "setSdrconnectProperty_loop property val message g [] = None"
| "setSdrconnectProperty_loop property val message g ((keys, ReadError err) # rest) =
     Some ((if errors_Is err ErrDeadlineExceeded then (val, False, None)
            else ([], False,
                  Some (Errorf (''setSdrconnectProperty('' @ property @ '')'') err))),
           (raiseCommands keys g)\<lparr>wsReadDeadline := NoDeadline\<rparr>, rest)"
| "setSdrconnectProperty_loop property val message g ((keys, Received frame) # rest) =
     (let message1 = jsonUnmarshal frame message
      in if EventType message1 = ''property_changed'' \<and> Property message1 = property then
           Some ((Value message1, True, None),
                 (raiseCommands keys g)\<lparr>wsReadDeadline := NoDeadline\<rparr>, rest)
         else setSdrconnectProperty_loop property val message1 (raiseCommands keys g) rest)"

text \<open>\<open>sendErr\<close> is what \<open>websocket.JSON.Send\<close> returns.\<close>

definition setSdrconnectProperty ::
  "error option \<Rightarrow> string \<Rightarrow> string \<Rightarrow> Globals \<Rightarrow> transport
   \<Rightarrow> ((string \<times> bool \<times> error option) \<times> Globals \<times> transport) option" where
  "setSdrconnectProperty sendErr property val g reads =
     (case sendErr of
        Some err \<Rightarrow> Some (([], False, Some err), g, reads)
      | None \<Rightarrow>
          setSdrconnectProperty_loop property val zeroMessage
            (g\<lparr>wsReadDeadline := DeadlineAfter waitSetProperty\<rparr>) reads)"

subsection \<open>receiveMessages\<close>

text \<open>
  The \<open>switch message.Property\<close> of \<open>receiveMessages\<close>: the settings, the statistics
  and the sequence string after a \<open>property_changed\<close> message. \<open>settings\<close> always
  points to the global \<open>sdrconnectSettings\<close>.
\<close>

definition propertyChanged ::
  "Strconv \<Rightarrow> Message \<Rightarrow> SDRconnectSettings \<Rightarrow> ReceiveStats \<Rightarrow> string
   \<Rightarrow> SDRconnectSettings \<times> ReceiveStats \<times> string" where
  "propertyChanged lib message settings stats sequence =
     (let p = Property message; v = Value message
      in if p = ''device_sample_rate'' then
           (settings\<lparr>SampleRate := ParseFloat lib v\<rparr>, stats, sequence @ ''S'')
         else if p = ''device_vfo_frequency'' then
           (settings\<lparr>DeviceVFOFrequency := fst (ParseUint10 v 64)\<rparr>, stats, sequence @ ''V'')
         else if p = ''device_center_frequency'' then
           (settings\<lparr>DeviceCenterFrequency := fst (ParseUint10 v 64)\<rparr>, stats, sequence @ ''C'')
         else if p = ''filter_bandwidth'' then
           (settings\<lparr>FilterBandwidth := ucast (fst (ParseUint10 v 32))\<rparr>, stats, sequence @ ''F'')
         else if p = ''signal_power'' then
           (settings,
            if length (signalPower stats) < maxStats
            then stats\<lparr>signalPower := signalPower stats @ [ParseFloat lib v]\<rparr> else stats,
            sequence)
         else if p = ''signal_snr'' then
           (settings,
            if length (signalSNR stats) < maxStats
            then stats\<lparr>signalSNR := signalSNR stats @ [ParseFloat lib v]\<rparr> else stats,
            sequence)
         else if p = ''rds_pi'' then
           (settings,
            if length (rdsPI stats) < maxStats then
              (let pi = fst (ParseUint10 v 16)
               in if pi \<noteq> 0 then stats\<lparr>rdsPI := rdsPI stats @ [ucast pi]\<rparr> else stats)
            else stats,
            sequence)
         else if p = ''rds_ps'' then
           (settings,
            if length (rdsPS stats) < maxStats then
              (let ps = TrimSpace v
               in if ps \<noteq> [] then stats\<lparr>rdsPS := rdsPS stats @ [ps]\<rparr> else stats)
            else stats,
            sequence)
         else if p = ''demodulator'' then
           (settings\<lparr>Demodulator := fst (ParseDemodulatorMode v)\<rparr>, stats, sequence)
         else if p = ''lna_state'' then
           (settings\<lparr>LNAState := ParseUint0_32 lib v\<rparr>, stats, sequence)
         else if p = ''squelch_enable'' then
           (settings\<lparr>SquelchEnable := fst (ParseBool v)\<rparr>, stats, sequence)
         else if p = ''squelch_threshold'' then
           (settings\<lparr>SquelchThreshold := ParseFloat lib v\<rparr>, stats, sequence)
         else if p = ''agc_enable'' then
           (settings\<lparr>AGCEnable := fst (ParseBool v)\<rparr>, stats, sequence)
         else if p = ''agc_threshold'' then
           (settings\<lparr>AGCThreshold := ParseFloat lib v\<rparr>, stats, sequence)
         else (settings, stats, sequence))"

text \<open>
  The \<open>for\<close> loop of \<open>receiveMessages\<close>, with the locals \<open>paused\<close>,
  \<open>sequence\<close> and \<open>message\<close> as arguments; every frame is decoded into
  \<open>message\<close>. \<open>sequencePattern\<close> is \<open>None\<close> for \<open>nil\<close> and the
  pattern's \<open>MatchString\<close> otherwise. The result is the error returned (\<open>None\<close> for
  \<open>nil\<close>), the globals and the reads left; every return runs the deferred
  \<open>ws.SetReadDeadline(time.Time{})\<close>. The loop has not returned (\<open>None\<close>) when the
  reads end first.
\<close>

fun receiveMessages_loop ::
  "Strconv \<Rightarrow> (string \<Rightarrow> bool) option \<Rightarrow> bool \<Rightarrow> string \<Rightarrow> Message \<Rightarrow> Globals \<Rightarrow> transport
   \<Rightarrow> (error option \<times> Globals \<times> transport) option" where
  "receiveMessages_loop lib sequencePattern paused sequence message g [] = None"
| "receiveMessages_loop lib sequencePattern paused sequence message g
     ((keys, ReadError err) # rest) =
     (let g1 = raiseCommands keys g
      in Some (if errors_Is err ErrDeadlineExceeded \<and> sequencePattern = None
                  \<and> 0 <s countMessages (receiveStats g1)
               then None else Some err,
               g1\<lparr>wsReadDeadline := NoDeadline\<rparr>, rest))"
| "receiveMessages_loop lib sequencePattern paused sequence message g
     ((keys, Received frame) # rest) =
     (let message1 = jsonUnmarshal frame message;
          g1 = raiseCommands keys g;
          g2 = g1\<lparr>receiveStats :=
                 (receiveStats g1)\<lparr>countMessages := countMessages (receiveStats g1) + 1\<rparr>\<rparr>
      in if userCommandTerminate g2 then
           Some (Some ErrUserCommandTerminate,
                 g2\<lparr>userCommandTerminate := False, wsReadDeadline := NoDeadline\<rparr>, rest)
         else if userCommandNextScan g2 then
           Some (Some ErrUserCommandNextScan,
                 g2\<lparr>userCommandNextScan := False, wsReadDeadline := NoDeadline\<rparr>, rest)
         else
           (let g3 = (if userCommandTogglePause g2 then
                        g2\<lparr>userCommandTogglePause := False,
                           wsReadDeadline := (if \<not> paused then NoDeadline else DeadlineNow)\<rparr>
                      else g2);
                paused1 = (if userCommandTogglePause g2 then \<not> paused else paused)
            in if EventType message1 = ''property_changed'' then
                 (case propertyChanged lib message1 (sdrconnectSettings g3) (receiveStats g3) sequence of
                    (settings1, stats1, sequence1) \<Rightarrow>
                      (let g4 = g3\<lparr>sdrconnectSettings := settings1, receiveStats := stats1\<rparr>
                       in if (case sequencePattern of None \<Rightarrow> False
                              | Some matchString \<Rightarrow> matchString sequence1)
                          then Some (None, g4\<lparr>wsReadDeadline := NoDeadline\<rparr>, rest)
                          else receiveMessages_loop lib sequencePattern paused1 sequence1
                                 message1 g4 rest))
               else receiveMessages_loop lib sequencePattern paused1 sequence message1 g3 rest))"

definition receiveMessages ::
  "Strconv \<Rightarrow> (string \<Rightarrow> bool) option \<Rightarrow> nat \<Rightarrow> Globals \<Rightarrow> transport
   \<Rightarrow> (error option \<times> Globals \<times> transport) option" where
  "receiveMessages lib sequencePattern timeout g reads =
     receiveMessages_loop lib sequencePattern False [] zeroMessage
       (g\<lparr>wsReadDeadline := DeadlineAfter timeout\<rparr>) reads"

section \<open>Concrete inputs\<close>

text \<open>Values at which the properties below are evaluated.\<close>

definition example_settings :: SDRconnectSettings where
  "example_settings =
     \<lparr>DeviceName = [], DeviceSerial = [], Profile = [], SampleRate = Finite 600000,
      FilterBandwidth = 300000, DeviceCenterFrequency = 100000, DeviceVFOFrequency = 100000,
      Demodulator = DemodulatorWFM, LNAState = 0, SquelchEnable = False,
      SquelchThreshold = Finite 0, AGCEnable = False, AGCThreshold = Finite 0\<rparr>"

definition example_scan :: Scan where
  "example_scan =
     \<lparr>Start = 0, Stop = 0, Step = 0, List = [100000, 100100, 500000],
      DetectPowerThreshold = Finite (- 70), DetectSNRThreshold = Finite 5, LOOffset = 0\<rparr>"

definition example_stats :: ReceiveStats where
  "example_stats =
     \<lparr>countMessages = 0, signalPower = [], signalSNR = [], rdsPI = [], rdsPS = []\<rparr>"

definition example_globals :: Globals where
  "example_globals =
     \<lparr>sdrconnectSettings = example_settings, receiveStats = example_stats,
      userCommandTogglePause = False, userCommandNextScan = False,
      userCommandTerminate = False, wsReadDeadline = NoDeadline\<rparr>"

definition no_keys :: KeyPresses where
  "no_keys = \<lparr>pressTogglePause = False, pressNextScan = False, pressTerminate = False\<rparr>"

text \<open>
  An instance of the parsers that are parameters. It is what \<open>strconv\<close> computes on
  the decimal integers of up to 15 digits without a leading zero, with an optional minus
  sign for \<open>ParseFloat\<close>; on other strings it is not.
\<close>

definition example_strconv :: Strconv where
  "example_strconv =
     \<lparr>ParseFloat = (\<lambda>s. case s of
          CHR ''-'' # ds \<Rightarrow>
            (let n = fst (ParseUint10 ds 64)
             in if n = 0 then NegZero else Finite (- of_nat (unat n)))
        | _ \<Rightarrow> Finite (of_nat (unat (fst (ParseUint10 s 64))))),
      ParseUint0_32 = (\<lambda>s. ucast (fst (ParseUint10 s 32)))\<rparr>"

section \<open>Predicates of the properties\<close>

text \<open>Whether a byte list starts with a white space rune, as \<open>trimFront\<close> reads it.\<close>

fun frontSpace ::
  "(char \<Rightarrow> char \<Rightarrow> bool) \<Rightarrow> (char \<Rightarrow> char \<Rightarrow> char \<Rightarrow> bool) \<Rightarrow> string \<Rightarrow> bool" where
  "frontSpace p2 p3 (c1 # c2 # c3 # s) = (asciiSpace c1 \<or> p2 c1 c2 \<or> p3 c1 c2 c3)"
| "frontSpace p2 p3 [c1, c2] = (asciiSpace c1 \<or> p2 c1 c2)"
| "frontSpace p2 p3 [c1] = asciiSpace c1"
| "frontSpace p2 p3 [] = False"

text \<open>A string is blank when it is empty or all white space: trimming leaves nothing.\<close>

definition blank :: "string \<Rightarrow> bool" where
  "blank s = (TrimSpace s = [])"

text \<open>
  The statistics hold no station identifier 0 and no blank station name.
\<close>

definition rdsStored_ok :: "ReceiveStats \<Rightarrow> bool" where
  "rdsStored_ok stats =
     (list_all (\<lambda>pi. pi \<noteq> 0) (rdsPI stats) \<and> list_all (\<lambda>ps. \<not> blank ps) (rdsPS stats))"

text \<open>
  A read that brings a message while neither the terminate nor the next-scan key was
  pressed: with no pattern, \<open>receiveMessages\<close> goes on to the next read after it.
\<close>

definition quiet_message :: "KeyPresses \<times> read \<Rightarrow> bool" where
  "quiet_message kr =
     (\<not> pressTerminate (fst kr) \<and> \<not> pressNextScan (fst kr)
      \<and> (case snd kr of Received frame \<Rightarrow> True | ReadError err \<Rightarrow> False))"

text \<open>A read that brings a frame, not an error.\<close>

definition frame_read :: "KeyPresses \<times> read \<Rightarrow> bool" where
  "frame_read kr = (case snd kr of Received frame \<Rightarrow> True | ReadError err \<Rightarrow> False)"



text \<open>
  The values that the variable \<open>message\<close> takes, read after read, from the value it
  has before the first read; an error ends the reading.
\<close>

fun messagesRead :: "Message \<Rightarrow> transport \<Rightarrow> Message list" where
  "messagesRead message [] = []"
| "messagesRead message ((keys, ReadError err) # rest) = []"
| "messagesRead message ((keys, Received frame) # rest) =
     jsonUnmarshal frame message # messagesRead (jsonUnmarshal frame message) rest"

text \<open>
  Whether the variable \<open>message\<close> holds the matching event, as
  \<open>setSdrconnectProperty\<close> tests it.
\<close>

definition matching_message :: "string \<Rightarrow> Message \<Rightarrow> bool" where
  "matching_message property message =
     (EventType message = ''property_changed'' \<and> Property message = property)"

definition example_message :: "string \<Rightarrow> string \<Rightarrow> KeyPresses \<times> read" where
  "example_message property val =
     (no_keys, Received \<lparr>event_type_key = Some ''property_changed'',
                         property_key = Some property, value_key = Some val\<rparr>)"


definition example_deadline :: "KeyPresses \<times> read" where
  "example_deadline = (no_keys, ReadError ErrDeadlineExceeded)"

section \<open>Predicates of the LO span properties\<close>

text \<open>
  The spans partition the index range from \<open>lo\<close> to \<open>hi\<close>: the first starts at
  \<open>lo\<close>, each next one starts right after the one before, the last ends at \<open>hi\<close>,
  and none is empty.
\<close>

fun spans_partition :: "nat \<Rightarrow> nat \<Rightarrow> LOSpan list \<Rightarrow> bool" where
  "spans_partition lo hi [] = False"
| "spans_partition lo hi [s] = (span_from s = lo \<and> span_to s = hi \<and> lo \<le> hi)"
| "spans_partition lo hi (s # t # rest) =
     (span_from s = lo \<and> lo \<le> span_to s \<and> spans_partition (Suc (span_to s)) hi (t # rest))"

text \<open>The target frequencies of a plan within a span.\<close>

definition span_targets :: "(64 word \<times> nat) list \<Rightarrow> LOSpan \<Rightarrow> 64 word list" where
  "span_targets plan s =
     map fst (take (Suc (span_to s) - span_from s) (drop (span_from s) plan))"

text \<open>
  The available bandwidth as the specification computes it, on the integers:
  \<open>IFBandwidth(sampleRate) - filterBandwidth - |offset|\<close>.
\<close>

definition availableBandwidth :: "(float64 \<Rightarrow> 32 word) \<Rightarrow> Scan \<Rightarrow> SDRconnectSettings \<Rightarrow> int" where
  "availableBandwidth toRate scan settings =
     uint (getIFBandwidth toRate (SampleRate settings)) - uint (FilterBandwidth settings)
     - \<bar>sint (LOOffset scan)\<bar>"

text \<open>
  What the loop of \<open>getLOSpans\<close> establishes for a span, over the frequencies \<open>f i\<close>
  of the plan by index: the span is not empty, its targets lie within \<open>maxDf\<close> of each
  other, and its frequency is the machine midpoint of the least and the greatest target
  plus the offset.
\<close>

definition span_ok :: "(nat \<Rightarrow> 64 word) \<Rightarrow> 64 word \<Rightarrow> 32 word \<Rightarrow> LOSpan \<Rightarrow> bool" where
  "span_ok f maxDf loOffset s =
     (span_from s \<le> span_to s
      \<and> Max (f ` {span_from s..span_to s}) - Min (f ` {span_from s..span_to s}) \<le> maxDf
      \<and> span_frequency s =
          (Min (f ` {span_from s..span_to s}) + Max (f ` {span_from s..span_to s})) div 2
          + scast loOffset)"

section \<open>Properties: IF bandwidth\<close>

lemma getIFBandwidth_loop_takeWhile:
  "getIFBandwidth_loop rate prevBandwidth bs =
     last (prevBandwidth # takeWhile (\<lambda>b. b \<le> rate) bs) * 1000"
  by (induction bs arbitrary: prevBandwidth) (auto simp: not_less)

lemma word32_below_200_300: "rate < (200 :: 32 word) \<Longrightarrow> rate < 300"
  by (erule order.strict_trans) simp

text \<open>
  C2, as the claim states it, fails: at a sample rate of 250000 Hz the first bucket
  whose threshold exceeds the rate 250 is 300 kHz, and \<open>getIFBandwidth\<close> returns
  200000 Hz.
\<close>

theorem getIFBandwidth_not_first_exceeding:
  "getIFBandwidth truncate_kHz (Finite 250000) = 200000
   \<and> spec_IFBandwidth (truncate_kHz (Finite 250000)) = 300000"
  by (simp add: getIFBandwidth_def bandwidthskHz_def spec_IFBandwidth_def truncate_kHz_def)

text \<open>
  C2, amended: for every sample rate, \<open>getIFBandwidth\<close> returns (in Hz) the bucket that
  precedes the first bucket whose threshold exceeds the rate \<open>uint32(sampleRate / 1000)\<close>,
  that is the largest breakpoint not above the rate; the first bucket, 200 kHz, when the
  rate is below 200; and the last bucket, 8000 kHz, when no threshold exceeds the rate.
\<close>

theorem getIFBandwidth_bucket:
  "getIFBandwidth toRate sampleRate =
     last (200 # takeWhile (\<lambda>b. b \<le> toRate sampleRate) bandwidthskHz) * 1000
   \<and> getIFBandwidth toRate sampleRate =
     (let rate = toRate sampleRate
      in if rate < 300 then 200000 else if rate < 600 then 300000
         else if rate < 1536 then 600000 else if rate < 5000 then 1536000
         else if rate < 6000 then 5000000 else if rate < 7000 then 6000000
         else if rate < 8000 then 7000000 else 8000000)"
proof
  show "getIFBandwidth toRate sampleRate =
     last (200 # takeWhile (\<lambda>b. b \<le> toRate sampleRate) bandwidthskHz) * 1000"
    unfolding getIFBandwidth_def Let_def getIFBandwidth_loop_takeWhile
    by (simp add: bandwidthskHz_def)
next
  show "getIFBandwidth toRate sampleRate =
     (let rate = toRate sampleRate
      in if rate < 300 then 200000 else if rate < 600 then 300000
         else if rate < 1536 then 600000 else if rate < 5000 then 1536000
         else if rate < 6000 then 5000000 else if rate < 7000 then 6000000
         else if rate < 8000 then 7000000 else 8000000)"
    using word32_below_200_300 [of "toRate sampleRate"]
    by (auto simp add: getIFBandwidth_def bandwidthskHz_def Let_def)
qed

theorem getIFBandwidth_bucket_witness:
  "getIFBandwidth truncate_kHz (Finite 2000000) = 1536000
   \<and> getIFBandwidth truncate_kHz (Finite 100000) = 200000
   \<and> getIFBandwidth truncate_kHz (Finite 10000000) = 8000000"
  using getIFBandwidth_bucket [of truncate_kHz "Finite 2000000"]
    getIFBandwidth_bucket [of truncate_kHz "Finite 100000"]
    getIFBandwidth_bucket [of truncate_kHz "Finite 10000000"]
  by (simp add: truncate_kHz_def Let_def bandwidthskHz_def)

section \<open>Properties: signal detection\<close>

lemma f64_ge_refl: "x \<noteq> NaN \<Longrightarrow> f64_ge x x"
  by (cases x) auto

lemma f64_ge_trans: "f64_ge a b \<Longrightarrow> f64_ge b c \<Longrightarrow> f64_ge a c"
  by (cases a; cases b; cases c) auto

lemma f64_max_cases: "a \<noteq> NaN \<Longrightarrow> b \<noteq> NaN \<Longrightarrow>
  (f64_max a b = a \<or> f64_max a b = b) \<and> f64_ge (f64_max a b) a \<and> f64_ge (f64_max a b) b"
  by (cases a; cases b) (auto simp: f64_max_def)

lemma f64_min_cases: "a \<noteq> NaN \<Longrightarrow> b \<noteq> NaN \<Longrightarrow>
  (f64_min a b = a \<or> f64_min a b = b) \<and> f64_ge a (f64_min a b) \<and> f64_ge b (f64_min a b)"
  by (cases a; cases b) (auto simp: f64_min_def)

lemma foldl_f64_max_NaN: "foldl f64_max NaN xs = NaN"
  by (induction xs) (auto simp: f64_max_def)

lemma foldl_f64_max_has_NaN: "NaN \<in> set (x # xs) \<Longrightarrow> foldl f64_max x xs = NaN"
  by (induction xs arbitrary: x) (auto simp: f64_max_def foldl_f64_max_NaN)

lemma foldl_f64_max_greatest:
  "NaN \<notin> set (x # xs) \<Longrightarrow>
     foldl f64_max x xs \<in> set (x # xs) \<and> (\<forall>z \<in> set (x # xs). f64_ge (foldl f64_max x xs) z)"
proof (induction xs arbitrary: x)
  case Nil
  then show ?case by (simp add: f64_ge_refl)
next
  case (Cons a xs)
  from Cons.prems have nn: "x \<noteq> NaN" "a \<noteq> NaN" "NaN \<notin> set xs" by auto
  from f64_max_cases [OF nn(1,2)] have m: "f64_max x a = x \<or> f64_max x a = a"
    and gx: "f64_ge (f64_max x a) x" and ga: "f64_ge (f64_max x a) a" by auto
  from m nn have "NaN \<notin> set (f64_max x a # xs)" by auto
  from Cons.IH [OF this] have mem: "foldl f64_max (f64_max x a) xs \<in> set (f64_max x a # xs)"
    and ge: "\<forall>z \<in> set (f64_max x a # xs). f64_ge (foldl f64_max (f64_max x a) xs) z" by auto
  from ge have top: "f64_ge (foldl f64_max (f64_max x a) xs) (f64_max x a)" by simp
  have "f64_ge (foldl f64_max (f64_max x a) xs) x" using f64_ge_trans [OF top gx] .
  moreover have "f64_ge (foldl f64_max (f64_max x a) xs) a" using f64_ge_trans [OF top ga] .
  moreover from mem m have "foldl f64_max (f64_max x a) xs \<in> set (x # a # xs)" by auto
  ultimately show ?case using ge by auto
qed

lemma signalMax_Some: "\<exists>m. signalMax xs = Some m"
  by (cases xs rule: signalMax.cases) auto

text \<open>
  C6, amended: \<open>detectSignal\<close> takes \<open>signalPowerMax\<close> and \<open>signalSNRMax\<close> as the
  sentinel -1000 for no sample, the sole sample for one, and \<open>slices.Max\<close> over all
  samples but the first for two or more (their maximum, or NaN when one of them is NaN);
  it never panics, and reports detection exactly when \<open>signalPowerMax\<close> is at least the
  power threshold or \<open>signalSNRMax\<close> at least the SNR threshold. With no sample at all
  there is no detection whenever both thresholds are above -1000. With power threshold -70
  and power samples [-40, -80, -75] the power does not trigger: detection is decided by the
  SNR alone.
\<close>

theorem detectSignal_rule:
  "signalMax [] = Some (Finite (- 1000))
   \<and> signalMax [x] = Some x
   \<and> signalMax (x # y # ys) = slices_Max (y # ys)
   \<and> (NaN \<notin> set (y # ys) \<longrightarrow>
        (\<exists>m \<in> set (y # ys). slices_Max (y # ys) = Some m \<and> (\<forall>z \<in> set (y # ys). f64_ge m z)))
   \<and> (NaN \<in> set (y # ys) \<longrightarrow> slices_Max (y # ys) = Some NaN)
   \<and> (\<exists>p s. signalMax (signalPower stats) = Some p \<and> signalMax (signalSNR stats) = Some s
        \<and> detectSignal scan stats =
            Some (f64_ge p (DetectPowerThreshold scan) \<or> f64_ge s (DetectSNRThreshold scan)))
   \<and> (signalPower stats = [] \<and> signalSNR stats = []
        \<and> f64_lt (Finite (- 1000)) (DetectPowerThreshold scan)
        \<and> f64_lt (Finite (- 1000)) (DetectSNRThreshold scan)
        \<longrightarrow> detectSignal scan stats = Some False)
   \<and> (signalPower stats = [Finite (- 40), Finite (- 80), Finite (- 75)]
        \<and> DetectPowerThreshold scan = Finite (- 70)
        \<longrightarrow> (\<exists>s. signalMax (signalSNR stats) = Some s
              \<and> detectSignal scan stats = Some (f64_ge s (DetectSNRThreshold scan))))"
proof -
  have a: "NaN \<notin> set (y # ys) \<longrightarrow>
        (\<exists>m \<in> set (y # ys). slices_Max (y # ys) = Some m \<and> (\<forall>z \<in> set (y # ys). f64_ge m z))"
    using foldl_f64_max_greatest [of y ys] by auto
  have b: "NaN \<in> set (y # ys) \<longrightarrow> slices_Max (y # ys) = Some NaN"
    using foldl_f64_max_has_NaN [of y ys] by auto
  obtain p where p: "signalMax (signalPower stats) = Some p" using signalMax_Some by blast
  obtain s where s: "signalMax (signalSNR stats) = Some s" using signalMax_Some by blast
  have c: "\<exists>p s. signalMax (signalPower stats) = Some p \<and> signalMax (signalSNR stats) = Some s
        \<and> detectSignal scan stats =
            Some (f64_ge p (DetectPowerThreshold scan) \<or> f64_ge s (DetectSNRThreshold scan))"
    using p s by (simp add: detectSignal_def)
  have d: "signalPower stats = [] \<and> signalSNR stats = []
        \<and> f64_lt (Finite (- 1000)) (DetectPowerThreshold scan)
        \<and> f64_lt (Finite (- 1000)) (DetectSNRThreshold scan)
        \<longrightarrow> detectSignal scan stats = Some False"
    by (cases "DetectPowerThreshold scan"; cases "DetectSNRThreshold scan")
       (auto simp: detectSignal_def)
  have e: "signalPower stats = [Finite (- 40), Finite (- 80), Finite (- 75)]
        \<and> DetectPowerThreshold scan = Finite (- 70)
        \<longrightarrow> (\<exists>s. signalMax (signalSNR stats) = Some s
              \<and> detectSignal scan stats = Some (f64_ge s (DetectSNRThreshold scan)))"
    using s by (auto simp: detectSignal_def f64_max_def)
  show ?thesis using a b c d e by simp
qed

theorem detectSignal_rule_witness:
  "detectSignal example_scan example_stats = Some False
   \<and> detectSignal example_scan
        (example_stats\<lparr>signalPower := [Finite (- 40), Finite (- 80), Finite (- 75)]\<rparr>) = Some False
   \<and> slices_Max [Finite (- 80), Finite (- 75)] = Some (Finite (- 75))
   \<and> slices_Max [Finite (- 80), NaN] = Some NaN"
  using detectSignal_rule [of "Finite (- 40)" "Finite (- 80)" "[Finite (- 75)]" example_stats example_scan]
    detectSignal_rule [of "Finite (- 40)" "Finite (- 80)" "[Finite (- 75)]"
       "example_stats\<lparr>signalPower := [Finite (- 40), Finite (- 80), Finite (- 75)]\<rparr>" example_scan]
    detectSignal_rule [of "Finite (- 40)" "Finite (- 80)" "[NaN]" example_stats example_scan]
  by (simp add: example_scan_def example_stats_def f64_max_def)

text \<open>
  C6, as the claim states it, fails: the sentinel does not guarantee non-detection. With
  no sample and a power threshold of -1000 the sentinel meets the threshold.
\<close>

theorem detectSignal_sentinel_reached:
  "detectSignal (example_scan\<lparr>DetectPowerThreshold := Finite (- 1000)\<rparr>) example_stats = Some True"
  by (simp add: detectSignal_def example_scan_def example_stats_def)

section \<open>Properties: report formatting\<close>

lemma foldl_f64_min_NaN: "foldl f64_min NaN xs = NaN"
  by (induction xs) (auto simp: f64_min_def)

lemma foldl_f64_min_least:
  "NaN \<notin> set (x # xs) \<Longrightarrow>
     foldl f64_min x xs \<in> set (x # xs) \<and> (\<forall>z \<in> set (x # xs). f64_ge z (foldl f64_min x xs))"
proof (induction xs arbitrary: x)
  case Nil
  then show ?case by (simp add: f64_ge_refl)
next
  case (Cons a xs)
  from Cons.prems have nn: "x \<noteq> NaN" "a \<noteq> NaN" "NaN \<notin> set xs" by auto
  from f64_min_cases [OF nn(1,2)] have m: "f64_min x a = x \<or> f64_min x a = a"
    and gx: "f64_ge x (f64_min x a)" and ga: "f64_ge a (f64_min x a)" by auto
  from m nn have "NaN \<notin> set (f64_min x a # xs)" by auto
  from Cons.IH [OF this] have mem: "foldl f64_min (f64_min x a) xs \<in> set (f64_min x a # xs)"
    and ge: "\<forall>z \<in> set (f64_min x a # xs). f64_ge z (foldl f64_min (f64_min x a) xs)" by auto
  from ge have top: "f64_ge (f64_min x a) (foldl f64_min (f64_min x a) xs)" by simp
  have "f64_ge x (foldl f64_min (f64_min x a) xs)" using f64_ge_trans [OF gx top] .
  moreover have "f64_ge a (foldl f64_min (f64_min x a) xs)" using f64_ge_trans [OF ga top] .
  moreover from mem m have "foldl f64_min (f64_min x a) xs \<in> set (x # a # xs)" by auto
  ultimately show ?case using ge by auto
qed

lemma pwrField_Some: "\<exists>pwr. pwrField samples = Some pwr"
  by (cases samples rule: signalMax.cases) (auto simp: pwrField_def)

lemma snrField_Some: "\<exists>snr. snrField samples = Some snr"
  by (cases samples rule: signalMax.cases) (auto simp: snrField_def)

text \<open>
  C3, amended: for statistics with exactly two power samples [-60, -55], \<open>showStats\<close>
  emits the power field as the range \<open>pwr=[-55.0dB,-55.0dB]\<close>, the minimum and the
  maximum over the one sample left when the first is excluded. In general the power field
  is absent for no sample, the single value \<open>pwr=x dB\<close> for exactly one sample, and for
  two or more samples the range of \<open>slices.Min\<close> and \<open>slices.Max\<close> over all samples
  but the first (the least and the greatest of them, when none is NaN); it is one of the
  fields of the line.
\<close>

theorem showStats_power_field:
  "pwrField [] = Some []
   \<and> pwrField [x] = Some [''pwr='' @ format_f1 x @ ''dB'']
   \<and> pwrField (x # y # ys) =
       Some [''pwr=['' @ format_f1 (foldl f64_min y ys) @ ''dB,''
             @ format_f1 (foldl f64_max y ys) @ ''dB]'']
   \<and> slices_Min (y # ys) = Some (foldl f64_min y ys)
   \<and> slices_Max (y # ys) = Some (foldl f64_max y ys)
   \<and> (NaN \<notin> set (y # ys) \<longrightarrow>
        foldl f64_min y ys \<in> set (y # ys) \<and> foldl f64_max y ys \<in> set (y # ys)
        \<and> (\<forall>z \<in> set (y # ys). f64_ge z (foldl f64_min y ys) \<and> f64_ge (foldl f64_max y ys) z))
   \<and> pwrField [Finite (- 60), Finite (- 55)] = Some [''pwr=[-55.0dB,-55.0dB]'']
   \<and> (\<exists>pwr before after. pwrField (signalPower stats) = Some pwr
        \<and> showStats mapKeys labels settings stats what
            = Some (strings_Join (before @ pwr @ after) '' ''))"
proof -
  have a: "NaN \<notin> set (y # ys) \<longrightarrow>
        foldl f64_min y ys \<in> set (y # ys) \<and> foldl f64_max y ys \<in> set (y # ys)
        \<and> (\<forall>z \<in> set (y # ys). f64_ge z (foldl f64_min y ys) \<and> f64_ge (foldl f64_max y ys) z)"
    using foldl_f64_min_least [of y ys] foldl_f64_max_greatest [of y ys] by auto
  have b: "pwrField [Finite (- 60), Finite (- 55)] = Some [''pwr=[-55.0dB,-55.0dB]'']"
    by (simp add: pwrField_def format_f1_def round_half_even_def decimal.simps digit_char_def)
  obtain pwr where pwr: "pwrField (signalPower stats) = Some pwr" using pwrField_Some by blast
  obtain snr where snr: "snrField (signalSNR stats) = Some snr" using snrField_Some by blast
  have "\<exists>before after. showStats mapKeys labels settings stats what
            = Some (strings_Join (before @ pwr @ after) '' '')"
    unfolding showStats_def Let_def pwr snr option.case
    by (metis append.assoc)
  then have c: "\<exists>pwr before after. pwrField (signalPower stats) = Some pwr
        \<and> showStats mapKeys labels settings stats what
            = Some (strings_Join (before @ pwr @ after) '' '')"
    using pwr by blast
  have d: "pwrField [] = Some [] \<and> pwrField [x] = Some [''pwr='' @ format_f1 x @ ''dB'']
   \<and> pwrField (x # y # ys) =
       Some [''pwr=['' @ format_f1 (foldl f64_min y ys) @ ''dB,''
             @ format_f1 (foldl f64_max y ys) @ ''dB]'']"
    by (simp add: pwrField_def)
  show ?thesis using a b c d by simp
qed

theorem showStats_power_field_witness:
  "pwrField [Finite (- 61), Finite (- 60), Finite (- 55)] = Some [''pwr=[-60.0dB,-55.0dB]'']
   \<and> foldl f64_min (Finite (- 60)) [Finite (- 55)] = Finite (- 60)
   \<and> foldl f64_max (Finite (- 60)) [Finite (- 55)] = Finite (- 55)"
  using showStats_power_field [of "Finite (- 61)" "Finite (- 60)" "[Finite (- 55)]"]
  by (simp add: f64_min_def f64_max_def format_f1_def round_half_even_def decimal.simps digit_char_def)

text \<open>
  C3, as the claim states it, fails: with the two power samples [-60, -55] the line shows
  a range, not the single value \<open>pwr=-55.0dB\<close>.
\<close>

theorem showStats_two_samples_range:
  "showStats id Map.empty example_settings
      (example_stats\<lparr>signalPower := [Finite (- 60), Finite (- 55)]\<rparr>) ''listen''
     = Some ''listen f=100000 pwr=[-55.0dB,-55.0dB]''
   \<and> pwrField [Finite (- 60), Finite (- 55)] \<noteq> Some [''pwr=-55.0dB'']"
  by (simp add: showStats_def pwrField_def snrField_def rdsPIField_def format_d_def
      format_f1_def round_half_even_def decimal.simps digit_char_def
      example_settings_def example_stats_def)

section \<open>Properties: library functions\<close>

lemma trimFront_fixed: "\<not> frontSpace p2 p3 s \<Longrightarrow> trimFront p2 p3 s = s"
  by (induction p2 p3 s rule: trimFront.induct) auto

lemma trimFront_no_frontSpace: "\<not> frontSpace p2 p3 (trimFront p2 p3 s)"
  by (induction p2 p3 s rule: trimFront.induct) auto

lemma trimFront_suffix: "\<exists>n. trimFront p2 p3 s = drop n s"
proof (induction p2 p3 s rule: trimFront.induct)
  case (1 p2 p3 c1 c2 c3 s)
  show ?case
  proof (cases "asciiSpace c1")
    case True
    with 1 obtain n where "trimFront p2 p3 (c2 # c3 # s) = drop n (c2 # c3 # s)" by auto
    then have "trimFront p2 p3 (c1 # c2 # c3 # s) = drop (Suc n) (c1 # c2 # c3 # s)"
      using True by simp
    then show ?thesis by blast
  next
    case False
    note na = this
    show ?thesis
    proof (cases "p2 c1 c2")
      case True
      with 1 na obtain n where "trimFront p2 p3 (c3 # s) = drop n (c3 # s)" by auto
      then have "trimFront p2 p3 (c1 # c2 # c3 # s) = drop (Suc (Suc n)) (c1 # c2 # c3 # s)"
        using True na by simp
      then show ?thesis by blast
    next
      case False
      note n2 = this
      show ?thesis
      proof (cases "p3 c1 c2 c3")
        case True
        with 1 na n2 obtain n where "trimFront p2 p3 s = drop n s" by auto
        then have "trimFront p2 p3 (c1 # c2 # c3 # s) = drop (Suc (Suc (Suc n))) (c1 # c2 # c3 # s)"
          using True na n2 by simp
        then show ?thesis by blast
      next
        case False
        then have "trimFront p2 p3 (c1 # c2 # c3 # s) = drop 0 (c1 # c2 # c3 # s)"
          using na n2 by simp
        then show ?thesis by blast
      qed
    qed
  qed
next
  case (2 p2 p3 c1 c2)
  show ?case
  proof (cases "asciiSpace c1")
    case True
    with 2 obtain n where "trimFront p2 p3 [c2] = drop n [c2]" by auto
    then have "trimFront p2 p3 [c1, c2] = drop (Suc n) [c1, c2]" using True by simp
    then show ?thesis by blast
  next
    case False
    show ?thesis
    proof (cases "p2 c1 c2")
      case True
      then have "trimFront p2 p3 [c1, c2] = drop 2 [c1, c2]" using False by simp
      then show ?thesis by blast
    next
      case F2: False
      then have "trimFront p2 p3 [c1, c2] = drop 0 [c1, c2]" using False by simp
      then show ?thesis by blast
    qed
  qed
next
  case (3 p2 p3 c1)
  have "trimFront p2 p3 [c1] = drop (if asciiSpace c1 then 1 else 0) [c1]" by simp
  then show ?case by blast
next
  case (4 p2 p3)
  have "trimFront p2 p3 [] = drop 0 []" by simp
  then show ?case by blast
qed

lemma nat_0123: obtains "n = 0" | "n = Suc 0" | "n = Suc (Suc 0)" | k where "n = Suc (Suc (Suc k))"
  by (metis not0_implies_Suc)

lemma frontSpace_take: "frontSpace p2 p3 (take n s) \<Longrightarrow> frontSpace p2 p3 s"
proof (induction p2 p3 s rule: frontSpace.induct)
  case (1 p2 p3 c1 c2 c3 s)
  then show ?case by (cases n rule: nat_0123) auto
next
  case (2 p2 p3 c1 c2)
  then show ?case by (cases n rule: nat_0123) auto
next
  case (3 p2 p3 c1)
  then show ?case by (cases n rule: nat_0123) auto
next
  case (4 p2 p3)
  then show ?case by simp
qed

lemma TrimRight_prefix: "\<exists>n. TrimRight s = take n s"
proof -
  obtain n where "trimFront (\<lambda>c2 c1. space2 c1 c2) (\<lambda>c3 c2 c1. space3 c1 c2 c3) (rev s) = drop n (rev s)"
    using trimFront_suffix by blast
  then have "TrimRight s = take (length s - n) s"
    by (simp add: TrimRight_def rev_drop)
  then show ?thesis by blast
qed

lemma TrimSpace_idem: "TrimSpace (TrimSpace s) = TrimSpace s"
proof -
  let ?a = "TrimLeft s"
  have nf: "\<not> frontSpace space2 space3 ?a"
    by (simp add: TrimLeft_def trimFront_no_frontSpace)
  obtain n where n: "TrimRight ?a = take n ?a" using TrimRight_prefix by blast
  have "\<not> frontSpace space2 space3 (TrimRight ?a)"
    using nf frontSpace_take [of space2 space3 n ?a] n by auto
  then have l: "TrimLeft (TrimRight ?a) = TrimRight ?a"
    by (simp add: TrimLeft_def trimFront_fixed)
  have r: "TrimRight (TrimRight ?a) = TrimRight ?a"
    by (simp add: TrimRight_def trimFront_fixed trimFront_no_frontSpace)
  show ?thesis by (simp add: TrimSpace_def l r)
qed

lemma ParseUint_loop_bound: "n \<le> maxVal \<Longrightarrow> fst (ParseUint_loop maxVal n s) \<le> maxVal"
  by (induction maxVal n s rule: ParseUint_loop.induct) (auto simp: Let_def split: option.splits)

lemma ParseUint10_bound: "fst (ParseUint10 s bitSize) \<le> 2 ^ bitSize - 1"
  by (simp add: ParseUint10_def ParseUint_loop_bound)

lemma ucast16_nonzero:
  assumes "w \<le> (2 ^ 16 - 1 :: 64 word)" "w \<noteq> 0"
  shows "(ucast w :: 16 word) \<noteq> 0"
proof
  assume "(ucast w :: 16 word) = 0"
  then have "unat (ucast w :: 16 word) = 0" by simp
  then have m: "unat w mod 2 ^ 16 = 0" by (simp add: unsigned_ucast_eq take_bit_eq_mod)
  from assms(1) have "unat w \<le> 65535" by (simp add: word_le_nat_alt)
  with m have "unat w = 0" by simp
  then have "w = 0" by (simp add: unat_eq_zero)
  with assms(2) show False by simp
qed

section \<open>Properties: the session loop\<close>

lemma propertyChanged_countMessages:
  "propertyChanged lib message settings stats sequence = (settings1, stats1, sequence1)
   \<Longrightarrow> countMessages stats1 = countMessages stats"
  by (auto simp: propertyChanged_def Let_def split: if_splits)

text \<open>One pass through the loop body on a message, when no command flag stops it.\<close>

lemma receiveMessages_loop_continue:
  assumes "\<not> userCommandTerminate (raiseCommands keys g)"
    and "\<not> userCommandNextScan (raiseCommands keys g)"
  shows "\<exists>paused1 sequence1 message1 g1.
      (\<forall>rest. receiveMessages_loop lib None paused sequence message g ((keys, Received frame) # rest)
         = receiveMessages_loop lib None paused1 sequence1 message1 g1 rest)
      \<and> countMessages (receiveStats g1) = countMessages (receiveStats g) + 1
      \<and> \<not> userCommandTerminate g1 \<and> \<not> userCommandNextScan g1"
proof -
  define message1 where "message1 = jsonUnmarshal frame message"
  define g2 where "g2 = (raiseCommands keys g)\<lparr>receiveStats :=
       (receiveStats (raiseCommands keys g))
         \<lparr>countMessages := countMessages (receiveStats (raiseCommands keys g)) + 1\<rparr>\<rparr>"
  define g3 where "g3 = (if userCommandTogglePause g2 then
                        g2\<lparr>userCommandTogglePause := False,
                           wsReadDeadline := (if \<not> paused then NoDeadline else DeadlineNow)\<rparr>
                      else g2)"
  define paused1 where "paused1 = (if userCommandTogglePause g2 then \<not> paused else paused)"
  have f2: "\<not> userCommandTerminate g2" "\<not> userCommandNextScan g2"
    using assms by (simp_all add: g2_def)
  have c2: "countMessages (receiveStats g2) = countMessages (receiveStats g) + 1"
    by (simp add: g2_def raiseCommands_def)
  have f3: "\<not> userCommandTerminate g3" "\<not> userCommandNextScan g3"
    "countMessages (receiveStats g3) = countMessages (receiveStats g) + 1"
    using f2 c2 by (simp_all add: g3_def)
  show ?thesis
  proof (cases "EventType message1 = ''property_changed''")
    case False
    have "\<forall>rest. receiveMessages_loop lib None paused sequence message g ((keys, Received frame) # rest)
         = receiveMessages_loop lib None paused1 sequence message1 g3 rest"
      using assms False by (simp add: Let_def g2_def g3_def paused1_def message1_def)
    with f3 show ?thesis by blast
  next
    case True
    obtain settings1 stats1 sequence1 where
      pc: "propertyChanged lib message1 (sdrconnectSettings (raiseCommands keys g))
             ((receiveStats (raiseCommands keys g))
                \<lparr>countMessages := countMessages (receiveStats (raiseCommands keys g)) + 1\<rparr>)
             sequence
            = (settings1, stats1, sequence1)"
      using prod_cases3 by blast
    define g4 where "g4 = g3\<lparr>sdrconnectSettings := settings1, receiveStats := stats1\<rparr>"
    have "\<forall>rest. receiveMessages_loop lib None paused sequence message g ((keys, Received frame) # rest)
         = receiveMessages_loop lib None paused1 sequence1 message1 g4 rest"
      using assms True pc unfolding message1_def
      by (simp add: Let_def g2_def g3_def paused1_def g4_def)
    moreover have "countMessages (receiveStats g4) = countMessages (receiveStats g) + 1"
      using propertyChanged_countMessages [OF pc] by (simp add: g4_def raiseCommands_def)
    moreover have "\<not> userCommandTerminate g4" "\<not> userCommandNextScan g4"
      using f3 by (simp_all add: g4_def)
    ultimately show ?thesis by blast
  qed
qed

lemma receiveMessages_loop_drain:
  assumes "list_all quiet_message pre"
    and "\<not> userCommandTerminate g" and "\<not> userCommandNextScan g"
  shows "\<exists>paused1 sequence1 message1 g1.
      (\<forall>rest. receiveMessages_loop lib None paused sequence message g (pre @ rest)
         = receiveMessages_loop lib None paused1 sequence1 message1 g1 rest)
      \<and> countMessages (receiveStats g1) = countMessages (receiveStats g) + of_nat (length pre)
      \<and> \<not> userCommandTerminate g1 \<and> \<not> userCommandNextScan g1"
  using assms
proof (induction pre arbitrary: paused sequence message g)
  case Nil
  then show ?case by auto
next
  case (Cons kr pre)
  obtain keys r where kr: "kr = (keys, r)" by (cases kr)
  from Cons.prems(1) kr obtain frame where r: "r = Received frame"
    and k: "\<not> pressTerminate keys" "\<not> pressNextScan keys"
    by (auto simp: quiet_message_def split: read.splits)
  have q: "\<not> userCommandTerminate (raiseCommands keys g)"
    "\<not> userCommandNextScan (raiseCommands keys g)"
    using Cons.prems k by (simp_all add: raiseCommands_def)
  from receiveMessages_loop_continue [OF q, of lib paused sequence message frame]
  obtain p1 s1 m1 g1 where
    step: "\<forall>rest. receiveMessages_loop lib None paused sequence message g ((keys, Received frame) # rest)
         = receiveMessages_loop lib None p1 s1 m1 g1 rest"
    and c1: "countMessages (receiveStats g1) = countMessages (receiveStats g) + 1"
    and f1: "\<not> userCommandTerminate g1" "\<not> userCommandNextScan g1" by blast
  from Cons.prems(1) have "list_all quiet_message pre" by simp
  from Cons.IH [OF this f1, of p1 s1 m1]
  obtain p2 s2 m2 g2 where
    rest: "\<forall>rest. receiveMessages_loop lib None p1 s1 m1 g1 (pre @ rest)
         = receiveMessages_loop lib None p2 s2 m2 g2 rest"
    and c2: "countMessages (receiveStats g2) = countMessages (receiveStats g1) + of_nat (length pre)"
    and f2: "\<not> userCommandTerminate g2" "\<not> userCommandNextScan g2" by blast
  have "\<forall>rest. receiveMessages_loop lib None paused sequence message g ((kr # pre) @ rest)
         = receiveMessages_loop lib None p2 s2 m2 g2 rest"
    using step rest kr r by simp
  moreover have "countMessages (receiveStats g2)
      = countMessages (receiveStats g) + of_nat (length (kr # pre))"
    using c1 c2 by simp
  ultimately show ?case using f2 by blast
qed

text \<open>
  C9: in every iteration of the loop of \<open>receiveMessages\<close> (whatever its pattern, its
  pause state and its sequence so far), if the terminate flag is set when the flags are
  examined, that is after a message was read, the loop returns
  \<open>ErrUserCommandTerminate\<close> in that iteration: the reads that follow are left
  unread, the flag is cleared and the message was counted. So a call returns it at the
  read where the terminate key was pressed, also after any number of messages, for every
  timeout.
\<close>

theorem receiveMessages_terminate:
  "(userCommandTerminate (raiseCommands keys g) \<longrightarrow>
      receiveMessages_loop lib sequencePattern paused sequence message g ((keys, Received frame) # rest)
        = Some (Some ErrUserCommandTerminate,
                (raiseCommands keys g)
                  \<lparr>receiveStats := (receiveStats g)
                      \<lparr>countMessages := countMessages (receiveStats g) + 1\<rparr>,
                   userCommandTerminate := False, wsReadDeadline := NoDeadline\<rparr>,
                rest))
   \<and> (list_all quiet_message pre \<and> \<not> userCommandTerminate g \<and> \<not> userCommandNextScan g
        \<and> pressTerminate keys \<longrightarrow>
        (\<exists>g1. receiveMessages lib None timeout g (pre @ (keys, Received frame) # rest)
                = Some (Some ErrUserCommandTerminate, g1, rest)
              \<and> \<not> userCommandTerminate g1
              \<and> countMessages (receiveStats g1)
                  = countMessages (receiveStats g) + of_nat (length pre) + 1))"
proof (intro conjI impI)
  assume "userCommandTerminate (raiseCommands keys g)"
  then show "receiveMessages_loop lib sequencePattern paused sequence message g ((keys, Received frame) # rest)
        = Some (Some ErrUserCommandTerminate,
                (raiseCommands keys g)
                  \<lparr>receiveStats := (receiveStats g)
                      \<lparr>countMessages := countMessages (receiveStats g) + 1\<rparr>,
                   userCommandTerminate := False, wsReadDeadline := NoDeadline\<rparr>,
                rest)"
    by (simp add: Let_def raiseCommands_def)
next
  assume a: "list_all quiet_message pre \<and> \<not> userCommandTerminate g \<and> \<not> userCommandNextScan g
        \<and> pressTerminate keys"
  let ?g0 = "g\<lparr>wsReadDeadline := DeadlineAfter timeout\<rparr>"
  from a have "list_all quiet_message pre" "\<not> userCommandTerminate ?g0" "\<not> userCommandNextScan ?g0"
    by simp_all
  from receiveMessages_loop_drain [OF this, of lib False "[]" zeroMessage]
  obtain p1 s1 m1 g1 where
    d: "\<forall>rest. receiveMessages_loop lib None False [] zeroMessage ?g0 (pre @ rest)
         = receiveMessages_loop lib None p1 s1 m1 g1 rest"
    and c: "countMessages (receiveStats g1) = countMessages (receiveStats ?g0) + of_nat (length pre)"
    by blast
  from a have t: "userCommandTerminate (raiseCommands keys g1)"
    by (simp add: raiseCommands_def)
  let ?g2 = "(raiseCommands keys g1)
                  \<lparr>receiveStats := (receiveStats g1)
                      \<lparr>countMessages := countMessages (receiveStats g1) + 1\<rparr>,
                   userCommandTerminate := False, wsReadDeadline := NoDeadline\<rparr>"
  have "receiveMessages lib None timeout g (pre @ (keys, Received frame) # rest)
      = Some (Some ErrUserCommandTerminate, ?g2, rest)"
    using d t by (simp add: receiveMessages_def Let_def raiseCommands_def)
  moreover have "\<not> userCommandTerminate ?g2" by simp
  moreover have "countMessages (receiveStats ?g2)
       = countMessages (receiveStats g) + of_nat (length pre) + 1"
    using c by simp
  ultimately show "\<exists>g1. receiveMessages lib None timeout g (pre @ (keys, Received frame) # rest)
                = Some (Some ErrUserCommandTerminate, g1, rest)
              \<and> \<not> userCommandTerminate g1
              \<and> countMessages (receiveStats g1)
                  = countMessages (receiveStats g) + of_nat (length pre) + 1"
    by blast
qed

theorem receiveMessages_terminate_witness:
  "receiveMessages example_strconv None 5000 example_globals
     [example_message ''signal_power'' ''-60'',
      (no_keys\<lparr>pressTerminate := True\<rparr>,
       Received \<lparr>event_type_key = Some ''property_changed'', property_key = Some ''signal_snr'',
                 value_key = Some ''12''\<rparr>),
      example_deadline]
   = Some (Some ErrUserCommandTerminate,
           example_globals\<lparr>receiveStats :=
              example_stats\<lparr>countMessages := 2, signalPower := [Finite (- 60)]\<rparr>\<rparr>,
           [example_deadline])"
proof -
  have q: "list_all quiet_message [example_message ''signal_power'' ''-60'']
        \<and> \<not> userCommandTerminate example_globals \<and> \<not> userCommandNextScan example_globals
        \<and> pressTerminate (no_keys\<lparr>pressTerminate := True\<rparr>)"
    by (simp add: quiet_message_def example_message_def no_keys_def example_globals_def)
  from receiveMessages_terminate [of "no_keys\<lparr>pressTerminate := True\<rparr>" example_globals
      example_strconv None False "[]" zeroMessage
      "\<lparr>event_type_key = Some ''property_changed'', property_key = Some ''signal_snr'',
        value_key = Some ''12''\<rparr>"
      "[example_deadline]" "[example_message ''signal_power'' ''-60'']" 5000] q
  obtain g1 where "receiveMessages example_strconv None 5000 example_globals
     ([example_message ''signal_power'' ''-60''] @
      (no_keys\<lparr>pressTerminate := True\<rparr>,
       Received \<lparr>event_type_key = Some ''property_changed'', property_key = Some ''signal_snr'',
                 value_key = Some ''12''\<rparr>) #
      [example_deadline]) = Some (Some ErrUserCommandTerminate, g1, [example_deadline])"
    by blast
  then show ?thesis
    by (simp add: receiveMessages_def example_message_def example_deadline_def no_keys_def
        example_globals_def example_stats_def example_strconv_def raiseCommands_def
        propertyChanged_def maxStats_def ParseUint10_def digitValue_def cutoff10_def Let_def
        jsonUnmarshal_def zeroMessage_def)
qed

lemma sless_of_nat_64: 
  assumes n: "n < 2 ^ 63"
  shows "(0 <s (of_nat n :: 64 word)) = (0 < n)"
proof -
  have "int n < 2 ^ 63" using n by (metis of_nat_less_iff of_nat_numeral of_nat_power)
  then have "signed_take_bit 63 (int n) = int n"
    by (intro signed_take_bit_int_eq_self) auto
  then have "sint (of_nat n :: 64 word) = int n"
    by (simp add: signed_of_nat)
  then show ?thesis by (simp add: word_sless_alt)
qed

text \<open>
  C1, amended: for every call to \<open>receiveMessages\<close> with no pattern, a read-deadline
  expiry is returned as success (\<open>nil\<close>) if and only if \<open>receiveStats.countMessages\<close>
  is positive at the expiry, and as the error otherwise. The call does not reset the
  counter: at the expiry it is its value on entry plus the number of messages received in
  this call. When the counter is 0 on entry, the expiry is success if and only if at least
  one message was received during the call.
\<close>

theorem receiveMessages_deadline:
  "(errors_Is err ErrDeadlineExceeded \<longrightarrow>
      receiveMessages_loop lib None paused sequence message g ((keys, ReadError err) # rest)
        = Some (if 0 <s countMessages (receiveStats g) then None else Some err,
                (raiseCommands keys g)\<lparr>wsReadDeadline := NoDeadline\<rparr>, rest))
   \<and> (errors_Is err ErrDeadlineExceeded \<and> list_all quiet_message pre
        \<and> \<not> userCommandTerminate g \<and> \<not> userCommandNextScan g \<longrightarrow>
        (\<exists>g1. receiveMessages lib None timeout g (pre @ (keys, ReadError err) # rest)
                = Some (if 0 <s countMessages (receiveStats g) + of_nat (length pre)
                        then None else Some err, g1, rest)))
   \<and> (errors_Is err ErrDeadlineExceeded \<and> list_all quiet_message pre
        \<and> \<not> userCommandTerminate g \<and> \<not> userCommandNextScan g
        \<and> countMessages (receiveStats g) = 0 \<and> length pre < 2 ^ 63 \<longrightarrow>
        (\<exists>g1. receiveMessages lib None timeout g (pre @ (keys, ReadError err) # rest)
                = Some (if pre \<noteq> [] then None else Some err, g1, rest)))"
proof -
  have one: "errors_Is err ErrDeadlineExceeded \<longrightarrow>
      receiveMessages_loop lib None paused sequence message g ((keys, ReadError err) # rest)
        = Some (if 0 <s countMessages (receiveStats g) then None else Some err,
                (raiseCommands keys g)\<lparr>wsReadDeadline := NoDeadline\<rparr>, rest)"
    by (simp add: Let_def raiseCommands_def)
  have call: "\<exists>g1. receiveMessages lib None timeout g (pre @ (keys, ReadError err) # rest)
                = Some (if 0 <s countMessages (receiveStats g) + of_nat (length pre)
                        then None else Some err, g1, rest)"
    if e: "errors_Is err ErrDeadlineExceeded" and q: "list_all quiet_message pre"
      and t: "\<not> userCommandTerminate g" and n: "\<not> userCommandNextScan g"
  proof -
    let ?g0 = "g\<lparr>wsReadDeadline := DeadlineAfter timeout\<rparr>"
    from t n have "\<not> userCommandTerminate ?g0" "\<not> userCommandNextScan ?g0" by simp_all
    from receiveMessages_loop_drain [OF q this, of lib False "[]" zeroMessage]
    obtain p1 s1 m1 g1 where
      d: "\<forall>rest. receiveMessages_loop lib None False [] zeroMessage ?g0 (pre @ rest)
           = receiveMessages_loop lib None p1 s1 m1 g1 rest"
      and c: "countMessages (receiveStats g1) = countMessages (receiveStats ?g0) + of_nat (length pre)"
      by blast
    have "receiveMessages lib None timeout g (pre @ (keys, ReadError err) # rest)
        = Some (if 0 <s countMessages (receiveStats g) + of_nat (length pre)
                then None else Some err,
                (raiseCommands keys g1)\<lparr>wsReadDeadline := NoDeadline\<rparr>, rest)"
      using d c e by (simp add: receiveMessages_def Let_def raiseCommands_def)
    then show ?thesis by blast
  qed
  have fresh: "\<exists>g1. receiveMessages lib None timeout g (pre @ (keys, ReadError err) # rest)
                = Some (if pre \<noteq> [] then None else Some err, g1, rest)"
    if e: "errors_Is err ErrDeadlineExceeded" and q: "list_all quiet_message pre"
      and t: "\<not> userCommandTerminate g" and n: "\<not> userCommandNextScan g"
      and z: "countMessages (receiveStats g) = 0" and l: "length pre < 2 ^ 63"
  proof -
    have "(0 <s countMessages (receiveStats g) + of_nat (length pre)) = (pre \<noteq> [])"
      using z sless_of_nat_64 [OF l] by simp
    with call [OF e q t n] show ?thesis by simp
  qed
  show ?thesis using one call fresh by blast
qed

theorem receiveMessages_deadline_witness:
  "receiveMessages example_strconv None 600 example_globals
     [example_message ''device_vfo_frequency'' ''100000'', example_deadline, example_deadline]
   = Some (None,
           example_globals\<lparr>receiveStats := example_stats\<lparr>countMessages := 1\<rparr>\<rparr>,
           [example_deadline])
   \<and> receiveMessages example_strconv None 600 example_globals [example_deadline]
   = Some (Some ErrDeadlineExceeded, example_globals, [])"
proof -
  have q: "errors_Is ErrDeadlineExceeded ErrDeadlineExceeded
      \<and> list_all quiet_message [example_message ''device_vfo_frequency'' ''100000'']
      \<and> \<not> userCommandTerminate example_globals \<and> \<not> userCommandNextScan example_globals
      \<and> countMessages (receiveStats example_globals) = 0
      \<and> length [example_message ''device_vfo_frequency'' ''100000''] < 2 ^ 63"
    by (simp add: quiet_message_def example_message_def no_keys_def example_globals_def
        example_stats_def)
  have q0: "errors_Is ErrDeadlineExceeded ErrDeadlineExceeded
      \<and> list_all quiet_message []
      \<and> \<not> userCommandTerminate example_globals \<and> \<not> userCommandNextScan example_globals
      \<and> countMessages (receiveStats example_globals) = 0
      \<and> length ([] :: transport) < 2 ^ 63"
    by (simp add: example_globals_def example_stats_def)
  from receiveMessages_deadline [of ErrDeadlineExceeded example_strconv False "[]" zeroMessage
      example_globals no_keys "[example_deadline]" "[example_message ''device_vfo_frequency'' ''100000'']" 600] q
  obtain g1 where a: "receiveMessages example_strconv None 600 example_globals
     ([example_message ''device_vfo_frequency'' ''100000''] @ (no_keys, ReadError ErrDeadlineExceeded) # [example_deadline])
     = Some (None, g1, [example_deadline])"
    by auto
  from receiveMessages_deadline [of ErrDeadlineExceeded example_strconv False "[]" zeroMessage
      example_globals no_keys "[]" "[]" 600] q0
  obtain g2 where b: "receiveMessages example_strconv None 600 example_globals
     ([] @ (no_keys, ReadError ErrDeadlineExceeded) # [])
     = Some (Some ErrDeadlineExceeded, g2, [])"
    by auto
  have c: "receiveMessages example_strconv None 600 example_globals
     [example_message ''device_vfo_frequency'' ''100000'', example_deadline, example_deadline]
   = Some (None,
           example_globals\<lparr>receiveStats := example_stats\<lparr>countMessages := 1\<rparr>\<rparr>,
           [example_deadline])"
    by code_simp
  have d: "receiveMessages example_strconv None 600 example_globals [example_deadline]
   = Some (Some ErrDeadlineExceeded, example_globals, [])"
    by code_simp
  from a b c d show ?thesis by simp
qed

text \<open>
  C1, as the claim states it, fails: a call that receives no message returns success at
  the expiry when an earlier call left the counter positive, as the listen after the
  detect window of \<open>runScan\<close> does.
\<close>

theorem receiveMessages_deadline_counter_carried:
  "receiveMessages example_strconv None 600 example_globals
     [example_message ''device_vfo_frequency'' ''100000'', example_deadline, example_deadline]
   = Some (None,
           example_globals\<lparr>receiveStats := example_stats\<lparr>countMessages := 1\<rparr>\<rparr>,
           [example_deadline])
   \<and> receiveMessages example_strconv None 5000
       (example_globals\<lparr>receiveStats := example_stats\<lparr>countMessages := 1\<rparr>\<rparr>)
       [example_deadline]
   = Some (None, example_globals\<lparr>receiveStats := example_stats\<lparr>countMessages := 1\<rparr>\<rparr>, [])"
  by code_simp

section \<open>Properties: setSdrconnectProperty\<close>

text \<open>
  The loop up to the expiry, when the variable \<open>message\<close> never holds the matching
  event.
\<close>

lemma setSdrconnectProperty_loop_no_match:
  "list_all frame_read pre \<Longrightarrow>
   list_all (\<lambda>m. \<not> matching_message property m) (messagesRead message pre) \<Longrightarrow>
   errors_Is err ErrDeadlineExceeded \<Longrightarrow>
   \<exists>g1. setSdrconnectProperty_loop property val message g (pre @ (keys, ReadError err) # rest)
     = Some ((val, False, None), g1, rest)"
proof (induction pre arbitrary: message g)
  case Nil
  then show ?case by simp
next
  case (Cons kr pre)
  obtain k r where kr: "kr = (k, r)" by (cases kr)
  from Cons.prems(1) kr obtain frame where r: "r = Received frame"
    by (auto simp: frame_read_def split: read.splits)
  define message1 where "message1 = jsonUnmarshal frame message"
  from Cons.prems(2) kr r have o: "\<not> matching_message property message1"
    and o1: "list_all (\<lambda>m. \<not> matching_message property m) (messagesRead message1 pre)"
    by (simp_all add: message1_def)
  from Cons.prems(1) have "list_all frame_read pre" by simp
  from Cons.IH [OF this o1 Cons.prems(3), of "raiseCommands k g"]
  obtain g1 where "setSdrconnectProperty_loop property val message1 (raiseCommands k g)
       (pre @ (keys, ReadError err) # rest) = Some ((val, False, None), g1, rest)" by blast
  then have "setSdrconnectProperty_loop property val message g
       ((kr # pre) @ (keys, ReadError err) # rest) = Some ((val, False, None), g1, rest)"
    using kr r o by (simp add: Let_def message1_def matching_message_def)
  then show ?case by blast
qed

text \<open>The loop returns \<open>changed = true\<close> once \<open>message\<close> holds the matching event.\<close>

lemma setSdrconnectProperty_loop_match:
  "list_all frame_read pre \<Longrightarrow>
   \<not> list_all (\<lambda>m. \<not> matching_message property m) (messagesRead message pre) \<Longrightarrow>
   \<exists>v g1 rest1. setSdrconnectProperty_loop property val message g (pre @ reads)
     = Some ((v, True, None), g1, rest1)"
proof (induction pre arbitrary: message g)
  case Nil
  then show ?case by simp
next
  case (Cons kr pre)
  obtain k r where kr: "kr = (k, r)" by (cases kr)
  from Cons.prems(1) kr obtain frame where r: "r = Received frame"
    by (auto simp: frame_read_def split: read.splits)
  define message1 where "message1 = jsonUnmarshal frame message"
  have step: "setSdrconnectProperty_loop property val message g ((kr # pre) @ reads)
       = (if matching_message property message1 then
            Some ((Value message1, True, None),
                  (raiseCommands k g)\<lparr>wsReadDeadline := NoDeadline\<rparr>, pre @ reads)
          else setSdrconnectProperty_loop property val message1 (raiseCommands k g) (pre @ reads))"
    using kr r by (simp add: Let_def message1_def matching_message_def)
  show ?case
  proof (cases "matching_message property message1")
    case True
    then show ?thesis unfolding step by simp
  next
    case False
    with Cons.prems(2) kr r
    have o1: "\<not> list_all (\<lambda>m. \<not> matching_message property m) (messagesRead message1 pre)"
      by (simp add: message1_def)
    from Cons.prems(1) have "list_all frame_read pre" by simp
    from Cons.IH [OF this o1, of "raiseCommands k g"]
    obtain v g1 rest1 where "setSdrconnectProperty_loop property val message1 (raiseCommands k g)
       (pre @ reads) = Some ((v, True, None), g1, rest1)" by blast
    then have "setSdrconnectProperty_loop property val message g ((kr # pre) @ reads)
       = Some ((v, True, None), g1, rest1)"
      unfolding step using False by simp
    then show ?thesis by blast
  qed
qed


text \<open>
  What \<open>setSdrconnectProperty\<close> tests is the variable \<open>message\<close>, into which it
  decodes every frame: when frames are all that arrives before the read deadline
  expires, the function returns \<open>changed = false\<close> with the requested value at the
  expiry if and only if \<open>message\<close> held the matching event after none of them.
\<close>

lemma setSdrconnectProperty_message_variable:
  assumes "errors_Is err ErrDeadlineExceeded" and "list_all frame_read pre"
  shows "(\<exists>g1. setSdrconnectProperty None property val g (pre @ (keys, ReadError err) # rest)
            = Some ((val, False, None), g1, rest))
         \<longleftrightarrow> list_all (\<lambda>m. \<not> matching_message property m) (messagesRead zeroMessage pre)"
proof -
  let ?g0 = "g\<lparr>wsReadDeadline := DeadlineAfter waitSetProperty\<rparr>"
  let ?reads = "pre @ (keys, ReadError err) # rest"
  have call: "setSdrconnectProperty None property val g ?reads
      = setSdrconnectProperty_loop property val zeroMessage ?g0 ?reads"
    by (simp add: setSdrconnectProperty_def)
  have no: "\<exists>g1. setSdrconnectProperty None property val g ?reads
         = Some ((val, False, None), g1, rest)"
    if "list_all (\<lambda>m. \<not> matching_message property m) (messagesRead zeroMessage pre)"
    unfolding call
    using setSdrconnectProperty_loop_no_match [OF assms(2) that assms(1)] by blast
  have yes: "\<not> (\<exists>g1. setSdrconnectProperty None property val g ?reads
         = Some ((val, False, None), g1, rest))"
    if "\<not> list_all (\<lambda>m. \<not> matching_message property m) (messagesRead zeroMessage pre)"
  proof -
    from setSdrconnectProperty_loop_match [OF assms(2) that, of val ?g0 "(keys, ReadError err) # rest"]
    obtain v g1 rest1 where "setSdrconnectProperty_loop property val zeroMessage ?g0 ?reads
       = Some ((v, True, None), g1, rest1)" by blast
    then show ?thesis unfolding call by simp
  qed
  show ?thesis using no yes by blast
qed




section \<open>Properties: station identifiers and names\<close>

lemma blank_TrimSpace: "TrimSpace v \<noteq> [] \<Longrightarrow> \<not> blank (TrimSpace v)"
  by (simp add: blank_def TrimSpace_idem)

lemma propertyChanged_rdsStored_ok:
  assumes "rdsStored_ok stats"
    and "propertyChanged lib message settings stats sequence = (settings1, stats1, sequence1)"
  shows "rdsStored_ok stats1"
proof -
  have pi: "fst (ParseUint10 (Value message) 16) \<noteq> 0
      \<Longrightarrow> (ucast (fst (ParseUint10 (Value message) 16)) :: 16 word) \<noteq> 0"
    using ParseUint10_bound [of "Value message" 16] by (intro ucast16_nonzero) auto
  show ?thesis
    using assms pi blank_TrimSpace [of "Value message"]
    by (auto simp: propertyChanged_def Let_def rdsStored_ok_def split: if_splits)
qed

lemma receiveMessages_loop_rdsStored_ok:
  "rdsStored_ok (receiveStats g) \<Longrightarrow>
   receiveMessages_loop lib sequencePattern paused sequence message g reads = Some (e, g1, rest) \<Longrightarrow>
   rdsStored_ok (receiveStats g1)"
proof (induction reads arbitrary: paused sequence message g)
  case Nil
  then show ?case by simp
next
  case (Cons kr reads)
  obtain keys r where kr: "kr = (keys, r)" by (cases kr)
  define g2 where "g2 = (raiseCommands keys g)\<lparr>receiveStats :=
       (receiveStats (raiseCommands keys g))
         \<lparr>countMessages := countMessages (receiveStats (raiseCommands keys g)) + 1\<rparr>\<rparr>"
  have ok2: "rdsStored_ok (receiveStats g2)" "rdsStored_ok (receiveStats (raiseCommands keys g))"
    using Cons.prems(1) by (simp_all add: g2_def raiseCommands_def rdsStored_ok_def)
  show ?case
  proof (cases r)
    case (ReadError err)
    with Cons.prems kr ok2 show ?thesis by (auto simp: Let_def)
  next
    case (Received frame)
    note rcv = this
    define message1 where "message1 = jsonUnmarshal frame message"
    define g3 where "g3 = (if userCommandTogglePause g2 then
                        g2\<lparr>userCommandTogglePause := False,
                           wsReadDeadline := (if \<not> paused then NoDeadline else DeadlineNow)\<rparr>
                      else g2)"
    define paused1 where "paused1 = (if userCommandTogglePause g2 then \<not> paused else paused)"
    have ok3: "rdsStored_ok (receiveStats g3)" using ok2 by (simp add: g3_def)
    have unfold: "receiveMessages_loop lib sequencePattern paused sequence message g (kr # reads) =
       (if userCommandTerminate g2 then
           Some (Some ErrUserCommandTerminate,
                 g2\<lparr>userCommandTerminate := False, wsReadDeadline := NoDeadline\<rparr>, reads)
         else if userCommandNextScan g2 then
           Some (Some ErrUserCommandNextScan,
                 g2\<lparr>userCommandNextScan := False, wsReadDeadline := NoDeadline\<rparr>, reads)
         else if EventType message1 = ''property_changed'' then
                 (case propertyChanged lib message1 (sdrconnectSettings g3) (receiveStats g3) sequence of
                    (settings1, stats1, sequence1) \<Rightarrow>
                      (let g4 = g3\<lparr>sdrconnectSettings := settings1, receiveStats := stats1\<rparr>
                       in if (case sequencePattern of None \<Rightarrow> False
                              | Some matchString \<Rightarrow> matchString sequence1)
                          then Some (None, g4\<lparr>wsReadDeadline := NoDeadline\<rparr>, reads)
                          else receiveMessages_loop lib sequencePattern paused1 sequence1 message1 g4 reads))
               else receiveMessages_loop lib sequencePattern paused1 sequence message1 g3 reads)"
      unfolding kr rcv g3_def paused1_def g2_def message1_def by (simp add: Let_def)
    show ?thesis
    proof (cases "userCommandTerminate g2 \<or> userCommandNextScan g2")
      case True
      with Cons.prems(2) ok2 show ?thesis unfolding unfold by (auto split: if_splits)
    next
      case False
      show ?thesis
      proof (cases "EventType message1 = ''property_changed''")
        case False
        with \<open>\<not> (userCommandTerminate g2 \<or> userCommandNextScan g2)\<close> Cons.prems(2)
        have "receiveMessages_loop lib sequencePattern paused1 sequence message1 g3 reads = Some (e, g1, rest)"
          unfolding unfold by simp
        from Cons.IH [OF ok3 this] show ?thesis .
      next
        case True
        obtain settings1 stats1 sequence1 where
          pc: "propertyChanged lib message1 (sdrconnectSettings g3) (receiveStats g3) sequence
                = (settings1, stats1, sequence1)"
          using prod_cases3 by blast
        define g4 where "g4 = g3\<lparr>sdrconnectSettings := settings1, receiveStats := stats1\<rparr>"
        have ok4: "rdsStored_ok (receiveStats g4)"
          using propertyChanged_rdsStored_ok [OF ok3 pc] by (simp add: g4_def)
        from True \<open>\<not> (userCommandTerminate g2 \<or> userCommandNextScan g2)\<close> Cons.prems(2) pc
        have alt: "(if (case sequencePattern of None \<Rightarrow> False
                              | Some matchString \<Rightarrow> matchString sequence1)
                          then Some (None, g4\<lparr>wsReadDeadline := NoDeadline\<rparr>, reads)
                          else receiveMessages_loop lib sequencePattern paused1 sequence1 message1 g4 reads)
                   = Some (e, g1, rest)"
          unfolding unfold by (auto simp: g4_def Let_def split: if_splits)
        show ?thesis
        proof (cases "(case sequencePattern of None \<Rightarrow> False
                              | Some matchString \<Rightarrow> matchString sequence1)")
          case True
          with alt have "g1 = g4\<lparr>wsReadDeadline := NoDeadline\<rparr>" by simp
          with ok4 show ?thesis by simp
        next
          case False
          with alt have "receiveMessages_loop lib sequencePattern paused1 sequence1 message1 g4 reads
             = Some (e, g1, rest)" by simp
          from Cons.IH [OF ok4 this] show ?thesis .
        qed
      qed
    qed
  qed
qed

text \<open>
  C10: the statistics never hold a station identifier equal to 0 nor a station name that
  is empty or all white space. \<open>receiveMessages\<close>, the only function that appends to
  \<open>rdsPI\<close> and \<open>rdsPS\<close>, keeps this from any statistics that satisfy it, as the
  cleared ones do; an \<open>rds_pi\<close> event whose parsed value is 0 and an \<open>rds_ps\<close> event
  whose trimmed value is empty change nothing. So the identifier fields of the report,
  and the extended listen that \<open>len(receiveStats.rdsPI) > 0\<close> triggers, come from
  nonzero identifiers only.
\<close>

theorem rds_never_zero_or_blank:
  "(rdsStored_ok (receiveStats g)
      \<and> receiveMessages lib sequencePattern timeout g reads = Some (e, g1, rest)
      \<longrightarrow> rdsStored_ok (receiveStats g1))
   \<and> (Property message = ''rds_pi'' \<and> fst (ParseUint10 (Value message) 16) = 0
        \<longrightarrow> propertyChanged lib message settings stats sequence = (settings, stats, sequence))
   \<and> (Property message = ''rds_ps'' \<and> blank (Value message)
        \<longrightarrow> propertyChanged lib message settings stats sequence = (settings, stats, sequence))
   \<and> (rdsPI stats = [] \<and> rdsPS stats = [] \<longrightarrow> rdsStored_ok stats)
   \<and> (rdsStored_ok stats \<and> rdsPIField mapKeys (rdsPI stats) \<noteq> []
        \<longrightarrow> rdsPI stats \<noteq> [] \<and> list_all (\<lambda>pi. pi \<noteq> 0) (rdsPI stats))"
proof -
  have a: "rdsStored_ok (receiveStats g)
      \<and> receiveMessages lib sequencePattern timeout g reads = Some (e, g1, rest)
      \<longrightarrow> rdsStored_ok (receiveStats g1)"
    using receiveMessages_loop_rdsStored_ok
      [of "g\<lparr>wsReadDeadline := DeadlineAfter timeout\<rparr>" lib sequencePattern False "[]" zeroMessage
          reads e g1 rest]
    by (simp add: receiveMessages_def)
  have b: "Property message = ''rds_pi'' \<and> fst (ParseUint10 (Value message) 16) = 0
        \<longrightarrow> propertyChanged lib message settings stats sequence = (settings, stats, sequence)"
    by (simp add: propertyChanged_def Let_def)
  have c: "Property message = ''rds_ps'' \<and> blank (Value message)
        \<longrightarrow> propertyChanged lib message settings stats sequence = (settings, stats, sequence)"
    by (simp add: propertyChanged_def Let_def blank_def)
  have d: "rdsPI stats = [] \<and> rdsPS stats = [] \<longrightarrow> rdsStored_ok stats"
    by (simp add: rdsStored_ok_def)
  have f: "rdsStored_ok stats \<and> rdsPIField mapKeys (rdsPI stats) \<noteq> []
        \<longrightarrow> rdsPI stats \<noteq> [] \<and> list_all (\<lambda>pi. pi \<noteq> 0) (rdsPI stats)"
    by (auto simp: rdsStored_ok_def rdsPIField_def)
  show ?thesis using a b c d f by blast
qed

theorem rds_never_zero_or_blank_witness:
  "receiveMessages example_strconv None 600 example_globals
     [example_message ''rds_pi'' ''0'', example_message ''rds_pi'' ''1234'',
      example_message ''rds_ps'' ''   '', example_message ''rds_ps'' '' BBC R1 '',
      example_deadline]
   = Some (None,
       example_globals\<lparr>receiveStats :=
          example_stats\<lparr>countMessages := 4, rdsPI := [1234], rdsPS := [''BBC R1'']\<rparr>\<rparr>, [])
   \<and> rdsStored_ok (example_stats\<lparr>countMessages := 4, rdsPI := [1234], rdsPS := [''BBC R1'']\<rparr>)
   \<and> propertyChanged example_strconv
        \<lparr>EventType = ''property_changed'', Property = ''rds_pi'', Value = ''0''\<rparr>
        example_settings example_stats [] = (example_settings, example_stats, [])
   \<and> propertyChanged example_strconv
        \<lparr>EventType = ''property_changed'', Property = ''rds_ps'', Value = ''   ''\<rparr>
        example_settings example_stats [] = (example_settings, example_stats, [])"
proof -
  let ?reads = "[example_message ''rds_pi'' ''0'', example_message ''rds_pi'' ''1234'',
      example_message ''rds_ps'' ''   '', example_message ''rds_ps'' '' BBC R1 '',
      example_deadline]"
  let ?g1 = "example_globals\<lparr>receiveStats :=
          example_stats\<lparr>countMessages := 4, rdsPI := [1234], rdsPS := [''BBC R1'']\<rparr>\<rparr>"
  let ?mpi = "\<lparr>EventType = ''property_changed'', Property = ''rds_pi'', Value = ''0''\<rparr>"
  let ?mps = "\<lparr>EventType = ''property_changed'', Property = ''rds_ps'', Value = ''   ''\<rparr>"
  have run: "receiveMessages example_strconv None 600 example_globals ?reads = Some (None, ?g1, [])"
    by code_simp
  have ok0: "rdsStored_ok (receiveStats example_globals)"
    by (simp add: rdsStored_ok_def example_globals_def example_stats_def)
  have zero: "Property ?mpi = ''rds_pi'' \<and> fst (ParseUint10 (Value ?mpi) 16) = 0"
    by (simp add: ParseUint10_def digitValue_def cutoff10_def)
  have bl: "Property ?mps = ''rds_ps'' \<and> blank (Value ?mps)"
    by (simp add: blank_def TrimSpace_def TrimLeft_def TrimRight_def asciiSpace_def)
  from rds_never_zero_or_blank [of example_globals example_strconv None 600 ?reads None ?g1 "[]"
      ?mpi example_settings example_stats "[]" "id"] ok0 run zero
  have r1: "rdsStored_ok (receiveStats ?g1)"
    and r2: "propertyChanged example_strconv ?mpi example_settings example_stats []
              = (example_settings, example_stats, [])"
    by blast+
  from rds_never_zero_or_blank [of example_globals example_strconv None 600 ?reads None ?g1 "[]"
      ?mps example_settings example_stats "[]" "id"] bl
  have r3: "propertyChanged example_strconv ?mps example_settings example_stats []
              = (example_settings, example_stats, [])"
    by blast
  from run r1 r2 r3 show ?thesis by simp
qed

section \<open>Properties: LO spans\<close>

lemma spans_partition_Cons:
  "spans_partition (Suc (span_to s)) hi sp \<Longrightarrow> span_from s = lo \<Longrightarrow> lo \<le> span_to s
   \<Longrightarrow> spans_partition lo hi (s # sp)"
  by (cases sp) auto

lemma Min_atLeastAtMost_Suc:
  fixes f :: "nat \<Rightarrow> 64 word"
  shows "a \<le> b \<Longrightarrow> Min (f ` {a..Suc b}) = min (Min (f ` {a..b})) (f (Suc b))"
  by (simp add: atLeastAtMostSuc_conv min.commute)

lemma Max_atLeastAtMost_Suc:
  fixes f :: "nat \<Rightarrow> 64 word"
  shows "a \<le> b \<Longrightarrow> Max (f ` {a..Suc b}) = max (Max (f ` {a..b})) (f (Suc b))"
  by (simp add: atLeastAtMostSuc_conv max.commute)

lemma getLOSpans_loop_inv:
  assumes "idxFrom \<le> idxTo" and "Suc idxTo = k"
    and "fmin = Min (f ` {idxFrom..idxTo})" and "fmax = Max (f ` {idxFrom..idxTo})"
    and "fmax - fmin \<le> maxDf" and "flo = (fmin + fmax) div 2"
  shows "\<exists>sp. getLOSpans_loop maxDf loOffset acc fmin fmax flo idxFrom idxTo
                 (map (\<lambda>i. (f i, i)) [k..<k + n]) = acc @ sp
              \<and> spans_partition idxFrom (k + n - 1) sp
              \<and> list_all (span_ok f maxDf loOffset) sp"
  using assms
proof (induction n arbitrary: acc fmin fmax flo idxFrom idxTo k)
  case 0
  let ?s = "newLOSpan idxFrom idxTo flo loOffset"
  have "span_ok f maxDf loOffset ?s"
    using 0 by (simp add: span_ok_def newLOSpan_def)
  moreover have "spans_partition idxFrom (k + 0 - 1) [?s]"
    using 0 by (auto simp: newLOSpan_def)
  ultimately show ?case by simp
next
  case (Suc n)
  have ks: "[k..<k + Suc n] = k # [Suc k..<Suc k + n]"
    by (simp add: upt_conv_Cons)
  let ?fmin1 = "min fmin (f k)" and ?fmax1 = "max fmax (f k)"
  have m1: "?fmin1 = Min (f ` {idxFrom..k})" "?fmax1 = Max (f ` {idxFrom..k})"
    using Suc.prems Min_atLeastAtMost_Suc [of idxFrom idxTo f] Max_atLeastAtMost_Suc [of idxFrom idxTo f]
    by auto
  show ?case
  proof (cases "maxDf < ?fmax1 - ?fmin1")
    case True
    let ?s = "newLOSpan idxFrom idxTo flo loOffset"
    have ok: "span_ok f maxDf loOffset ?s"
      using Suc.prems by (simp add: span_ok_def newLOSpan_def)
    have "\<exists>sp. getLOSpans_loop maxDf loOffset (acc @ [?s]) (f k) (f k) ((f k + f k) div 2) k k
                 (map (\<lambda>i. (f i, i)) [Suc k..<Suc k + n]) = (acc @ [?s]) @ sp
              \<and> spans_partition k (Suc k + n - 1) sp
              \<and> list_all (span_ok f maxDf loOffset) sp"
      by (rule Suc.IH) auto
    then obtain sp where
      run: "getLOSpans_loop maxDf loOffset (acc @ [?s]) (f k) (f k) ((f k + f k) div 2) k k
                 (map (\<lambda>i. (f i, i)) [Suc k..<Suc k + n]) = (acc @ [?s]) @ sp"
      and part: "spans_partition k (Suc k + n - 1) sp"
      and oks: "list_all (span_ok f maxDf loOffset) sp" by blast
    have "getLOSpans_loop maxDf loOffset acc fmin fmax flo idxFrom idxTo
                 (map (\<lambda>i. (f i, i)) [k..<k + Suc n]) = acc @ (?s # sp)"
      using True run unfolding ks by (simp add: Let_def)
    moreover have "spans_partition idxFrom (k + Suc n - 1) (?s # sp)"
      using part Suc.prems by (intro spans_partition_Cons) (auto simp: newLOSpan_def)
    moreover have "list_all (span_ok f maxDf loOffset) (?s # sp)"
      using ok oks by simp
    ultimately show ?thesis by blast
  next
    case False
    have "\<exists>sp. getLOSpans_loop maxDf loOffset acc ?fmin1 ?fmax1 ((?fmin1 + ?fmax1) div 2) idxFrom k
                 (map (\<lambda>i. (f i, i)) [Suc k..<Suc k + n]) = acc @ sp
              \<and> spans_partition idxFrom (Suc k + n - 1) sp
              \<and> list_all (span_ok f maxDf loOffset) sp"
      using Suc.prems m1 False by (intro Suc.IH) auto
    then obtain sp where
      run: "getLOSpans_loop maxDf loOffset acc ?fmin1 ?fmax1 ((?fmin1 + ?fmax1) div 2) idxFrom k
                 (map (\<lambda>i. (f i, i)) [Suc k..<Suc k + n]) = acc @ sp"
      and part: "spans_partition idxFrom (Suc k + n - 1) sp"
      and oks: "list_all (span_ok f maxDf loOffset) sp" by blast
    have "getLOSpans_loop maxDf loOffset acc fmin fmax flo idxFrom idxTo
                 (map (\<lambda>i. (f i, i)) [k..<k + Suc n]) = acc @ sp"
      using False run unfolding ks by (simp add: Let_def)
    with part oks show ?thesis by auto
  qed
qed

lemma rangeUp_indexes:
  "rangeUp stop step frequency index = Some plan \<Longrightarrow> map snd plan = [index..<index + length plan]"
proof (rule rangeUp.raw_induct
    [where P = "\<lambda>stop step frequency index plan. map snd plan = [index..<index + length plan]"])
  fix ru :: "64 word \<Rightarrow> 64 word \<Rightarrow> 64 word \<Rightarrow> nat \<Rightarrow> (64 word \<times> nat) list option"
  fix stop step frequency :: "64 word" and index :: nat and plan
  assume IH: "\<And>stop step frequency index plan.
     ru stop step frequency index = Some plan \<Longrightarrow> map snd plan = [index..<index + length plan]"
  assume body: "(if frequency \<le> stop
      then Option.bind (ru stop step (frequency + step) (index + 1))
            (\<lambda>rest. Some ((frequency, index) # rest))
      else Some []) = Some plan"
  show "map snd plan = [index..<index + length plan]"
  proof (cases "frequency \<le> stop")
    case False
    with body show ?thesis by simp
  next
    case True
    with body obtain rest where r: "ru stop step (frequency + step) (index + 1) = Some rest"
      and p: "plan = (frequency, index) # rest"
      by (auto simp: bind_eq_Some_conv)
    have "[index..<index + length plan] = index # [index + 1..<index + 1 + length rest]"
      using p by (subst upt_rec) simp
    with IH [OF r] p show ?thesis by simp
  qed
qed

lemma rangeDown_indexes:
  "rangeDown stop step frequency index = Some plan \<Longrightarrow> map snd plan = [index..<index + length plan]"
proof (rule rangeDown.raw_induct
    [where P = "\<lambda>stop step frequency index plan. map snd plan = [index..<index + length plan]"])
  fix rd :: "64 word \<Rightarrow> 64 word \<Rightarrow> 64 word \<Rightarrow> nat \<Rightarrow> (64 word \<times> nat) list option"
  fix stop step frequency :: "64 word" and index :: nat and plan
  assume IH: "\<And>stop step frequency index plan.
     rd stop step frequency index = Some plan \<Longrightarrow> map snd plan = [index..<index + length plan]"
  assume body: "(if stop \<le> frequency
      then Option.bind (rd stop step (frequency - step) (index + 1))
            (\<lambda>rest. Some ((frequency, index) # rest))
      else Some []) = Some plan"
  show "map snd plan = [index..<index + length plan]"
  proof (cases "stop \<le> frequency")
    case False
    with body show ?thesis by simp
  next
    case True
    with body obtain rest where r: "rd stop step (frequency - step) (index + 1) = Some rest"
      and p: "plan = (frequency, index) # rest"
      by (auto simp: bind_eq_Some_conv)
    have "[index..<index + length plan] = index # [index + 1..<index + 1 + length rest]"
      using p by (subst upt_rec) simp
    with IH [OF r] p show ?thesis by simp
  qed
qed

lemma getScanFrequenciesAndIndexes_indexes:
  assumes "getScanFrequenciesAndIndexes scan = Some plan"
  shows "map snd plan = [0..<length plan]"
proof -
  consider "0 <s Step scan" | "\<not> 0 <s Step scan" "Step scan <s 0"
    | "\<not> 0 <s Step scan" "\<not> Step scan <s 0" by blast
  then show ?thesis
  proof cases
    case 1
    with assms have "rangeUp (Stop scan) (Step scan) (Start scan) 0 = Some plan"
      by (simp add: getScanFrequenciesAndIndexes_def)
    from rangeUp_indexes [OF this] show ?thesis by simp
  next
    case 2
    with assms have "rangeDown (Stop scan) (- Step scan) (Start scan) 0 = Some plan"
      by (simp add: getScanFrequenciesAndIndexes_def)
    from rangeDown_indexes [OF this] show ?thesis by simp
  next
    case 3
    with assms show ?thesis
      by (auto simp: getScanFrequenciesAndIndexes_def split: if_splits)
  qed
qed

lemma plan_by_index:
  assumes "map snd plan = [0..<length plan]"
  shows "plan = map (\<lambda>i. (fst (plan ! i), i)) [0..<length plan]"
proof (rule nth_equalityI)
  show "length plan = length (map (\<lambda>i. (fst (plan ! i), i)) [0..<length plan])" by simp
next
  fix i assume i: "i < length plan"
  have "snd (plan ! i) = map snd plan ! i" using i by simp
  also have "\<dots> = i" using assms i by simp
  finally have "snd (plan ! i) = i" .
  then show "plan ! i = map (\<lambda>i. (fst (plan ! i), i)) [0..<length plan] ! i"
    using i by (simp add: prod_eq_iff)
qed

text \<open>The loop from its initial state, on a plan that is not empty.\<close>

lemma getLOSpans_loop_start:
  "\<exists>sp. getLOSpans_loop maxDf loOffset [] (- 1) 0 flo0 0 0
            (map (\<lambda>i. (f i, i)) [0..<Suc n]) = sp
        \<and> spans_partition 0 n sp \<and> list_all (span_ok f maxDf loOffset) sp"
proof -
  have up: "[0..<Suc n] = 0 # [Suc 0..<Suc 0 + n]" by (simp add: upt_conv_Cons)
  have mm: "min (- 1) (f 0) = f 0" "max 0 (f 0) = f 0"
    using word_n1_ge [of "f 0"] by (auto simp: min_def max_def simp del: word_n1_ge intro: antisym)
  have "\<exists>sp. getLOSpans_loop maxDf loOffset [] (f 0) (f 0) ((f 0 + f 0) div 2) 0 0
                 (map (\<lambda>i. (f i, i)) [Suc 0..<Suc 0 + n]) = [] @ sp
              \<and> spans_partition 0 (Suc 0 + n - 1) sp
              \<and> list_all (span_ok f maxDf loOffset) sp"
    by (rule getLOSpans_loop_inv) auto
  then show ?thesis
    unfolding up by (simp add: Let_def mm)
qed

lemma uint_bounds32: "0 \<le> uint (w :: 32 word) \<and> uint w < 4294967296"
  using uint_lt2p [of w] by simp

lemma sint_by_uint32:
  "sint (w :: 32 word) = (if uint w < 2147483648 then uint w else uint w - 4294967296)"
proof -
  have s: "sint w = (uint w + 2147483648) mod 4294967296 - 2147483648"
    by (simp add: sint_uint signed_take_bit_eq_take_bit_shift take_bit_eq_mod)
  show ?thesis
  proof (cases "uint w < 2147483648")
    case True
    then have "(uint w + 2147483648) mod 4294967296 = uint w + 2147483648"
      using uint_bounds32 [of w] by (intro mod_pos_pos_trivial) auto
    with s True show ?thesis by simp
  next
    case False
    have "(uint w + 2147483648 - 4294967296) mod 4294967296 = (uint w + 2147483648) mod 4294967296"
      by (rule minus_mod_self2)
    moreover have "(uint w + 2147483648 - 4294967296) mod 4294967296 = uint w + 2147483648 - 4294967296"
      using False uint_bounds32 [of w] by (intro mod_pos_pos_trivial) auto
    ultimately show ?thesis using s False by simp
  qed
qed

lemma uint_neg32:
  "uint (- (w :: 32 word)) = (if uint w = 0 then 0 else 4294967296 - uint w)"
proof (cases "uint w = 0")
  case True
  then show ?thesis by (simp add: uint_word_ariths)
next
  case False
  have "uint (- w) = (- uint w) mod 4294967296" by (simp add: uint_word_ariths)
  moreover have "(- uint w + 4294967296) mod 4294967296 = (- uint w) mod 4294967296"
    by (rule mod_add_self2)
  moreover have "0 < uint w"
    using False uint_ge_0 [of w] by linarith
  then have "(- uint w + 4294967296) mod 4294967296 = - uint w + 4294967296"
    using uint_bounds32 [of w] by (intro mod_pos_pos_trivial) auto
  ultimately show ?thesis using False by simp
qed

lemma uint_max_int32: "uint (max_int32 w (- w)) = \<bar>sint w\<bar>"
proof -
  have b: "0 \<le> uint w" "uint w < 4294967296" using uint_bounds32 [of w] by auto
  consider "uint w = 0" | "0 < uint w" "uint w < 2147483648" | "uint w = 2147483648"
    | "2147483648 < uint w" using b by linarith
  then show ?thesis
  proof cases
    case 1
    then have "w = 0" by (simp add: uint_0_iff)
    then show ?thesis by (simp add: max_int32_def)
  next
    case 2
    then have n: "uint (- w) = 4294967296 - uint w" by (simp add: uint_neg32)
    have "sint w = uint w" using 2 by (simp add: sint_by_uint32)
    moreover have "sint (- w) = - uint w" using 2 n by (simp add: sint_by_uint32 [of "- w"])
    ultimately show ?thesis using 2 by (simp add: max_int32_def word_sless_alt)
  next
    case 3
    then have n: "uint (- w) = 2147483648" by (simp add: uint_neg32)
    have "sint w = - 2147483648" using 3 by (simp add: sint_by_uint32)
    moreover have "sint (- w) = - 2147483648" using n by (simp add: sint_by_uint32 [of "- w"])
    ultimately show ?thesis using 3 by (simp add: max_int32_def word_sless_alt)
  next
    case 4
    then have n: "uint (- w) = 4294967296 - uint w" by (simp add: uint_neg32)
    have sw: "sint w = uint w - 4294967296" using 4 by (simp add: sint_by_uint32)
    moreover have "sint (- w) = 4294967296 - uint w" using 4 n b by (simp add: sint_by_uint32 [of "- w"])
    ultimately show ?thesis using 4 n b by (simp add: max_int32_def word_sless_alt)
  qed
qed

lemma uint_getLOSpans_maxDf:
  assumes "0 \<le> availableBandwidth toRate scan settings"
  shows "uint (getLOSpans_maxDf toRate scan settings) = availableBandwidth toRate scan settings"
proof -
  let ?a = "getIFBandwidth toRate (SampleRate settings)"
  let ?b = "FilterBandwidth settings"
  let ?c = "max_int32 (LOOffset scan) (- LOOffset scan)"
  from assms have bw: "0 \<le> uint ?a - uint ?b - uint ?c"
    by (simp add: availableBandwidth_def uint_max_int32)
  have "0 \<le> uint ?c" by simp
  with bw have ab: "uint ?b \<le> uint ?a" by linarith
  then have 1: "uint (?a - ?b) = uint ?a - uint ?b" by (simp add: uint_sub_lem)
  with bw have "uint ?c \<le> uint (?a - ?b)" by simp
  then have 2: "uint (?a - ?b - ?c) = uint (?a - ?b) - uint ?c" by (simp add: uint_sub_lem)
  have "uint (getLOSpans_maxDf toRate scan settings) = uint (?a - ?b - ?c)"
    by (simp add: getLOSpans_maxDf_def uint_up_ucast is_up)
  with 1 2 show ?thesis by (simp add: availableBandwidth_def uint_max_int32)
qed

lemma spans_partition_bounds:
  "spans_partition lo hi sp \<Longrightarrow> s \<in> set sp \<Longrightarrow>
     lo \<le> span_from s \<and> span_from s \<le> span_to s \<and> span_to s \<le> hi"
proof (induction lo hi sp arbitrary: s rule: spans_partition.induct)
  case (1 lo hi)
  then show ?case by simp
next
  case (2 lo hi t)
  then show ?case by auto
next
  case (3 lo hi s1 t rest)
  from "3.prems"(1) have p: "span_from s1 = lo" "lo \<le> span_to s1"
    "spans_partition (Suc (span_to s1)) hi (t # rest)" by auto
  have "t \<in> set (t # rest)" by simp
  from "3.IH" [OF p(3) this] have hi: "Suc (span_to s1) \<le> hi" by linarith
  show ?case
  proof (cases "s = s1")
    case True
    with p hi show ?thesis by auto
  next
    case False
    with "3.prems"(2) have "s \<in> set (t # rest)" by simp
    from "3.IH" [OF p(3) this] p show ?thesis by auto
  qed
qed

lemma spans_partition_single:
  assumes "spans_partition lo lo sp"
  shows "length sp = 1"
proof (cases sp)
  case Nil
  with assms show ?thesis by simp
next
  case (Cons s rest)
  show ?thesis
  proof (cases rest)
    case Nil
    with Cons show ?thesis by simp
  next
    case (Cons t rest1)
    with assms \<open>sp = s # rest\<close> have p: "lo \<le> span_to s"
      "spans_partition (Suc (span_to s)) lo (t # rest1)" by auto
    from spans_partition_bounds [OF p(2), of t] have "Suc (span_to s) \<le> lo" by simp
    with p(1) show ?thesis by simp
  qed
qed

lemma span_targets_image:
  assumes "plan = map (\<lambda>i. (f i, i)) [0..<n]" and "span_to s < n"
  shows "set (span_targets plan s) = f ` {span_from s..span_to s}"
proof -
  have "drop (span_from s) plan = map (\<lambda>i. (f i, i)) [span_from s..<n]"
    using assms(1) by (simp add: drop_map)
  moreover have "take (Suc (span_to s) - span_from s) [span_from s..<n] = [span_from s..<Suc (span_to s)]"
    using assms(2) by (cases "span_from s \<le> Suc (span_to s)") (simp_all add: take_upt del: upt_Suc)
  ultimately have "span_targets plan s = map f [span_from s..<Suc (span_to s)]"
    by (simp add: span_targets_def take_map comp_def del: upt_Suc)
  then show ?thesis by (simp only: set_map set_upt atLeastLessThanSuc_atLeastAtMost)
qed

text \<open>What \<open>getLOSpans\<close> returns for a plan that is not empty.\<close>

lemma getLOSpans_spans:
  assumes plan: "getScanFrequenciesAndIndexes scan = Some plan" and ne: "plan \<noteq> []"
  shows "\<exists>spans. getLOSpans toRate scan settings = Some spans
      \<and> spans_partition 0 (length plan - 1) spans
      \<and> (\<forall>s \<in> set spans. span_to s < length plan
           \<and> set (span_targets plan s) \<noteq> {}
           \<and> Max (set (span_targets plan s)) - Min (set (span_targets plan s))
               \<le> getLOSpans_maxDf toRate scan settings
           \<and> span_frequency s =
               (Min (set (span_targets plan s)) + Max (set (span_targets plan s))) div 2
               + scast (LOOffset scan))"
proof -
  define f where "f = (\<lambda>i. fst (plan ! i))"
  define n where "n = length plan - 1"
  have len: "length plan = Suc n" using ne by (cases plan) (simp_all add: n_def)
  have pl: "plan = map (\<lambda>i. (f i, i)) [0..<Suc n]"
    using plan_by_index [OF getScanFrequenciesAndIndexes_indexes [OF plan]] len
    by (simp add: f_def)
  let ?maxDf = "getLOSpans_maxDf toRate scan settings"
  from getLOSpans_loop_start [of ?maxDf "LOOffset scan" "(- 1 + 0) div 2" f n]
  obtain sp where run: "getLOSpans_loop ?maxDf (LOOffset scan) [] (- 1) 0 ((- 1 + 0) div 2) 0 0
            (map (\<lambda>i. (f i, i)) [0..<Suc n]) = sp"
    and part: "spans_partition 0 n sp"
    and oks: "list_all (span_ok f ?maxDf (LOOffset scan)) sp" by blast
  have res: "getLOSpans toRate scan settings = Some sp"
    using plan run pl by (simp add: getLOSpans_def Let_def)
  have each: "span_to s < length plan
           \<and> set (span_targets plan s) \<noteq> {}
           \<and> Max (set (span_targets plan s)) - Min (set (span_targets plan s)) \<le> ?maxDf
           \<and> span_frequency s =
               (Min (set (span_targets plan s)) + Max (set (span_targets plan s))) div 2
               + scast (LOOffset scan)" if s: "s \<in> set sp" for s
  proof -
    from spans_partition_bounds [OF part s] have b: "span_from s \<le> span_to s" "span_to s \<le> n"
      by auto
    then have lt: "span_to s < Suc n" by simp
    have im: "set (span_targets plan s) = f ` {span_from s..span_to s}"
      using span_targets_image [OF pl lt] .
    from oks s have "span_ok f ?maxDf (LOOffset scan) s" by (simp add: list_all_iff)
    then show ?thesis using im b lt len by (simp add: span_ok_def)
  qed
  from res part each show ?thesis unfolding n_def by blast
qed

lemma uint_midpoint:
  assumes "uint a + uint b < 2 ^ 64"
  shows "uint ((a + b) div 2 :: 64 word) = (uint a + uint b) div 2"
proof -
  have "uint (a + b) = uint a + uint b"
    using assms uint_add_lem [of a b] by simp
  then show ?thesis by (simp add: uint_div)
qed

lemma uint_add_scast:
  assumes "0 \<le> uint x + sint off" and "uint x + sint off < 2 ^ 64"
  shows "uint (x + scast (off :: 32 word) :: 64 word) = uint x + sint off"
proof -
  have "uint (scast off :: 64 word) = sint off mod 2 ^ LENGTH(64)"
    by (simp only: scast_eq uint_word_of_int)
  then have "uint (x + scast off) = (uint x + sint off mod 2 ^ LENGTH(64)) mod 2 ^ LENGTH(64)"
    by (simp only: uint_word_ariths)
  also have "\<dots> = (uint x + sint off) mod 2 ^ LENGTH(64)"
    by (rule mod_add_right_eq)
  also have "\<dots> = uint x + sint off"
    using assms by (intro mod_pos_pos_trivial) simp_all
  finally show ?thesis .
qed

text \<open>
  C4: for every plan that is not empty, with a non-negative available bandwidth
  \<open>IFBandwidth(sampleRate) - filterBandwidth - |offset|\<close>, the spans that
  \<open>getLOSpans\<close> returns partition the index range from 0 to \<open>len(plan) - 1\<close>:
  contiguous, in increasing order, without overlap. Within every span any two target
  frequencies differ by at most the available bandwidth (so the maximum minus the minimum
  does), and a plan of length 1 yields exactly one span.
\<close>

theorem getLOSpans_partition:
  assumes plan: "getScanFrequenciesAndIndexes scan = Some plan" and ne: "plan \<noteq> []"
    and bw: "0 \<le> availableBandwidth toRate scan settings"
  shows "\<exists>spans. getLOSpans toRate scan settings = Some spans
      \<and> spans_partition 0 (length plan - 1) spans
      \<and> (\<forall>s \<in> set spans. \<forall>a \<in> set (span_targets plan s). \<forall>b \<in> set (span_targets plan s).
            uint a - uint b \<le> availableBandwidth toRate scan settings)
      \<and> (length plan = 1 \<longrightarrow> length spans = 1)"
proof -
  let ?maxDf = "getLOSpans_maxDf toRate scan settings"
  from getLOSpans_spans [OF plan ne, of toRate settings]
  obtain spans where res: "getLOSpans toRate scan settings = Some spans"
    and part: "spans_partition 0 (length plan - 1) spans"
    and each: "\<forall>s \<in> set spans. span_to s < length plan
           \<and> set (span_targets plan s) \<noteq> {}
           \<and> Max (set (span_targets plan s)) - Min (set (span_targets plan s)) \<le> ?maxDf
           \<and> span_frequency s =
               (Min (set (span_targets plan s)) + Max (set (span_targets plan s))) div 2
               + scast (LOOffset scan)" by blast
  have width: "uint a - uint b \<le> availableBandwidth toRate scan settings"
    if s: "s \<in> set spans" and a: "a \<in> set (span_targets plan s)"
      and b: "b \<in> set (span_targets plan s)" for s a b
  proof -
    let ?T = "set (span_targets plan s)"
    from each s have d: "Max ?T - Min ?T \<le> ?maxDf" by blast
    have le: "a \<le> Max ?T" "Min ?T \<le> b" "Min ?T \<le> Max ?T"
      using a b by (auto intro: Min_le Max_ge order_trans [of "Min ?T" a "Max ?T"])
    then have u: "uint a \<le> uint (Max ?T)" "uint (Min ?T) \<le> uint b" "uint (Min ?T) \<le> uint (Max ?T)"
      by (simp_all add: word_le_def)
    from u(3) have "uint (Max ?T - Min ?T) = uint (Max ?T) - uint (Min ?T)"
      by (simp add: uint_sub_lem)
    moreover from d have "uint (Max ?T - Min ?T) \<le> uint ?maxDf" by (simp add: word_le_def)
    ultimately have "uint a - uint b \<le> uint ?maxDf" using u by linarith
    then show ?thesis using uint_getLOSpans_maxDf [OF bw] by simp
  qed
  have one: "length plan = 1 \<longrightarrow> length spans = 1"
    using part spans_partition_single [of 0 spans] by auto
  from res part width one show ?thesis by blast
qed

theorem getLOSpans_partition_witness:
  "getLOSpans truncate_kHz example_scan example_settings
     = Some [\<lparr>span_from = 0, span_to = 1, span_frequency = 100050\<rparr>,
             \<lparr>span_from = 2, span_to = 2, span_frequency = 500000\<rparr>]
   \<and> spans_partition 0 2
       [\<lparr>span_from = 0, span_to = 1, span_frequency = 100050\<rparr>,
        \<lparr>span_from = 2, span_to = 2, span_frequency = 500000\<rparr>]
   \<and> availableBandwidth truncate_kHz example_scan example_settings = 300000"
proof -
  let ?plan = "[(100000, 0), (100100, 1), (500000, 2)] :: (64 word \<times> nat) list"
  have p: "getScanFrequenciesAndIndexes example_scan = Some ?plan"
    by code_simp
  have ne: "?plan \<noteq> []" by simp
  have av: "availableBandwidth truncate_kHz example_scan example_settings = 300000"
    by (simp add: availableBandwidth_def example_scan_def example_settings_def
        getIFBandwidth_def bandwidthskHz_def truncate_kHz_def)
  then have bw: "0 \<le> availableBandwidth truncate_kHz example_scan example_settings" by simp
  from getLOSpans_partition [OF p ne bw]
  obtain spans where r: "getLOSpans truncate_kHz example_scan example_settings = Some spans"
    and q: "spans_partition 0 (length ?plan - 1) spans" by blast
  have e: "getLOSpans truncate_kHz example_scan example_settings
     = Some [\<lparr>span_from = 0, span_to = 1, span_frequency = 100050\<rparr>,
             \<lparr>span_from = 2, span_to = 2, span_frequency = 500000\<rparr>]"
    by code_simp
  have t: "spans_partition 0 2
       [\<lparr>span_from = 0, span_to = 1, span_frequency = 100050\<rparr>,
        \<lparr>span_from = 2, span_to = 2, span_frequency = 500000\<rparr>]"
    using r q e by (simp add: numeral_2_eq_2)
  from e t av show ?thesis by simp
qed

lemma word64_min_max_init: "min (- 1) (x :: 64 word) = x \<and> max 0 x = x"
  using word_n1_ge [of x] by (auto simp: min_def max_def simp del: word_n1_ge intro: antisym)

lemma getLOSpans_single:
  assumes "Step scan = 0" and "List scan = [freq]"
  shows "getLOSpans toRate scan settings
     = Some [\<lparr>span_from = 0, span_to = 0,
               span_frequency = (freq + freq) div 2 + scast (LOOffset scan)\<rparr>]"
  using assms
  by (simp add: getLOSpans_def getScanFrequenciesAndIndexes_def Let_def newLOSpan_def
      word64_min_max_init word_sless_alt)

text \<open>
  C5, amended: each LO span's center frequency is computed on uint64 as the midpoint
  (rounded down) of the minimum and the maximum target frequency within the span, plus
  the configured offset. It equals that midpoint plus the offset whenever the sum of the
  minimum and the maximum is below \<open>2^64\<close> and the midpoint plus the offset lies in
  \<open>[0, 2^64)\<close>; beyond that the arithmetic wraps around. Concretely, the targets 100000,
  100100, 500000 Hz with \<open>maxDf\<close> 300000 Hz and offset 0 produce exactly the spans
  [0,1] centered at 100050 and [2,2] centered at 500000; and a single-frequency plan yields
  one span, whose center equals that frequency plus the offset when the frequency is below
  \<open>2^63\<close> and the sum lies in \<open>[0, 2^64)\<close>.
\<close>

theorem getLOSpans_center:
  "(getScanFrequenciesAndIndexes scan = Some plan \<and> plan \<noteq> [] \<longrightarrow>
      (\<exists>spans. getLOSpans toRate scan settings = Some spans
        \<and> (\<forall>s \<in> set spans.
              span_frequency s =
                (Min (set (span_targets plan s)) + Max (set (span_targets plan s))) div 2
                + scast (LOOffset scan)
              \<and> (uint (Min (set (span_targets plan s))) + uint (Max (set (span_targets plan s))) < 2 ^ 64
                  \<and> 0 \<le> (uint (Min (set (span_targets plan s)))
                           + uint (Max (set (span_targets plan s)))) div 2 + sint (LOOffset scan)
                  \<and> (uint (Min (set (span_targets plan s)))
                       + uint (Max (set (span_targets plan s)))) div 2 + sint (LOOffset scan) < 2 ^ 64
                  \<longrightarrow> uint (span_frequency s) =
                        (uint (Min (set (span_targets plan s)))
                         + uint (Max (set (span_targets plan s)))) div 2 + sint (LOOffset scan)))))
   \<and> (Step scan = 0 \<and> List scan = [100000, 100100, 500000] \<and> LOOffset scan = 0
        \<and> getLOSpans_maxDf toRate scan settings = 300000 \<longrightarrow>
        getLOSpans toRate scan settings
          = Some [\<lparr>span_from = 0, span_to = 1, span_frequency = 100050\<rparr>,
                  \<lparr>span_from = 2, span_to = 2, span_frequency = 500000\<rparr>])
   \<and> (Step scan = 0 \<and> List scan = [freq] \<longrightarrow>
        (\<exists>center. getLOSpans toRate scan settings
            = Some [\<lparr>span_from = 0, span_to = 0, span_frequency = center\<rparr>]
          \<and> (uint freq < 2 ^ 63 \<and> 0 \<le> uint freq + sint (LOOffset scan)
               \<and> uint freq + sint (LOOffset scan) < 2 ^ 64
               \<longrightarrow> uint center = uint freq + sint (LOOffset scan))))"
proof (intro conjI impI)
  assume a: "getScanFrequenciesAndIndexes scan = Some plan \<and> plan \<noteq> []"
  then have plan: "getScanFrequenciesAndIndexes scan = Some plan" and ne: "plan \<noteq> []" by auto
  from getLOSpans_spans [OF plan ne, of toRate settings]
  obtain spans where res: "getLOSpans toRate scan settings = Some spans"
    and each: "\<forall>s \<in> set spans. span_to s < length plan
           \<and> set (span_targets plan s) \<noteq> {}
           \<and> Max (set (span_targets plan s)) - Min (set (span_targets plan s))
               \<le> getLOSpans_maxDf toRate scan settings
           \<and> span_frequency s =
               (Min (set (span_targets plan s)) + Max (set (span_targets plan s))) div 2
               + scast (LOOffset scan)" by blast
  have "span_frequency s =
                (Min (set (span_targets plan s)) + Max (set (span_targets plan s))) div 2
                + scast (LOOffset scan)
              \<and> (uint (Min (set (span_targets plan s))) + uint (Max (set (span_targets plan s))) < 2 ^ 64
                  \<and> 0 \<le> (uint (Min (set (span_targets plan s)))
                           + uint (Max (set (span_targets plan s)))) div 2 + sint (LOOffset scan)
                  \<and> (uint (Min (set (span_targets plan s)))
                       + uint (Max (set (span_targets plan s)))) div 2 + sint (LOOffset scan) < 2 ^ 64
                  \<longrightarrow> uint (span_frequency s) =
                        (uint (Min (set (span_targets plan s)))
                         + uint (Max (set (span_targets plan s)))) div 2 + sint (LOOffset scan))"
    if s: "s \<in> set spans" for s
  proof -
    let ?lo = "Min (set (span_targets plan s))" and ?hi = "Max (set (span_targets plan s))"
    from each s have c: "span_frequency s = (?lo + ?hi) div 2 + scast (LOOffset scan)" by blast
    have "uint (span_frequency s) = (uint ?lo + uint ?hi) div 2 + sint (LOOffset scan)"
      if n: "uint ?lo + uint ?hi < 2 ^ 64"
        and p: "0 \<le> (uint ?lo + uint ?hi) div 2 + sint (LOOffset scan)"
        and q: "(uint ?lo + uint ?hi) div 2 + sint (LOOffset scan) < 2 ^ 64"
    proof -
      have m: "uint ((?lo + ?hi) div 2) = (uint ?lo + uint ?hi) div 2"
        using uint_midpoint [OF n] .
      show ?thesis
        unfolding c using uint_add_scast [of "(?lo + ?hi) div 2" "LOOffset scan"] p q
        unfolding m by simp
    qed
    with c show ?thesis by blast
  qed
  with res show "\<exists>spans. getLOSpans toRate scan settings = Some spans
        \<and> (\<forall>s \<in> set spans.
              span_frequency s =
                (Min (set (span_targets plan s)) + Max (set (span_targets plan s))) div 2
                + scast (LOOffset scan)
              \<and> (uint (Min (set (span_targets plan s))) + uint (Max (set (span_targets plan s))) < 2 ^ 64
                  \<and> 0 \<le> (uint (Min (set (span_targets plan s)))
                           + uint (Max (set (span_targets plan s)))) div 2 + sint (LOOffset scan)
                  \<and> (uint (Min (set (span_targets plan s)))
                       + uint (Max (set (span_targets plan s)))) div 2 + sint (LOOffset scan) < 2 ^ 64
                  \<longrightarrow> uint (span_frequency s) =
                        (uint (Min (set (span_targets plan s)))
                         + uint (Max (set (span_targets plan s)))) div 2 + sint (LOOffset scan)))"
    by blast
next
  assume "Step scan = 0 \<and> List scan = [100000, 100100, 500000] \<and> LOOffset scan = 0
        \<and> getLOSpans_maxDf toRate scan settings = 300000"
  then show "getLOSpans toRate scan settings
          = Some [\<lparr>span_from = 0, span_to = 1, span_frequency = 100050\<rparr>,
                  \<lparr>span_from = 2, span_to = 2, span_frequency = 500000\<rparr>]"
    by (simp add: getLOSpans_def getScanFrequenciesAndIndexes_def Let_def newLOSpan_def
        word_sless_alt upt_rec)
next
  assume a: "Step scan = 0 \<and> List scan = [freq]"
  let ?c = "(freq + freq) div 2 + scast (LOOffset scan)"
  from a have r: "getLOSpans toRate scan settings
     = Some [\<lparr>span_from = 0, span_to = 0, span_frequency = ?c\<rparr>]"
    using getLOSpans_single by blast
  have "uint ?c = uint freq + sint (LOOffset scan)"
    if n: "uint freq < 2 ^ 63" and p: "0 \<le> uint freq + sint (LOOffset scan)"
      and q: "uint freq + sint (LOOffset scan) < 2 ^ 64"
  proof -
    from n have "uint freq + uint freq < 2 ^ 64" by simp
    from uint_midpoint [OF this] have m: "uint ((freq + freq) div 2) = uint freq" by simp
    show ?thesis using uint_add_scast [of "(freq + freq) div 2" "LOOffset scan"] p q
      unfolding m by simp
  qed
  with r show "\<exists>center. getLOSpans toRate scan settings
            = Some [\<lparr>span_from = 0, span_to = 0, span_frequency = center\<rparr>]
          \<and> (uint freq < 2 ^ 63 \<and> 0 \<le> uint freq + sint (LOOffset scan)
               \<and> uint freq + sint (LOOffset scan) < 2 ^ 64
               \<longrightarrow> uint center = uint freq + sint (LOOffset scan))"
    by blast
qed

text \<open>
  C5, as the claim states it, fails where the uint64 arithmetic wraps: the single
  frequency \<open>2^63\<close> Hz with offset 0 gets the center 0, and the single frequency 100 Hz
  with offset -1000 gets the center \<open>2^64 - 900\<close>.
\<close>

theorem getLOSpans_center_wraps:
  "getLOSpans truncate_kHz (example_scan\<lparr>List := [9223372036854775808]\<rparr>) example_settings
     = Some [\<lparr>span_from = 0, span_to = 0, span_frequency = 0\<rparr>]
   \<and> uint (0 :: 64 word) \<noteq> uint (9223372036854775808 :: 64 word) + sint (0 :: 32 word)
   \<and> getLOSpans truncate_kHz (example_scan\<lparr>List := [100], LOOffset := - 1000\<rparr>) example_settings
     = Some [\<lparr>span_from = 0, span_to = 0, span_frequency = 18446744073709550716\<rparr>]
   \<and> uint (18446744073709550716 :: 64 word) \<noteq> uint (100 :: 64 word) + sint (- 1000 :: 32 word)"
proof -
  have a: "getLOSpans truncate_kHz (example_scan\<lparr>List := [9223372036854775808]\<rparr>) example_settings
     = Some [\<lparr>span_from = 0, span_to = 0, span_frequency = 0\<rparr>]"
    by code_simp
  have b: "getLOSpans truncate_kHz (example_scan\<lparr>List := [100], LOOffset := - 1000\<rparr>) example_settings
     = Some [\<lparr>span_from = 0, span_to = 0, span_frequency = 18446744073709550716\<rparr>]"
    by code_simp
  from a b show ?thesis by simp
qed

theorem getLOSpans_center_witness:
  "getLOSpans truncate_kHz example_scan example_settings
     = Some [\<lparr>span_from = 0, span_to = 1, span_frequency = 100050\<rparr>,
             \<lparr>span_from = 2, span_to = 2, span_frequency = 500000\<rparr>]
   \<and> uint (100050 :: 64 word) = (uint (100000 :: 64 word) + uint (100100 :: 64 word)) div 2 + 0
   \<and> getLOSpans truncate_kHz
        (example_scan\<lparr>List := [145000000], LOOffset := - 100000\<rparr>) example_settings
     = Some [\<lparr>span_from = 0, span_to = 0, span_frequency = 144900000\<rparr>]"
proof -
  let ?scan1 = "example_scan\<lparr>List := [145000000], LOOffset := - 100000\<rparr>"
  let ?plan = "[(100000, 0), (100100, 1), (500000, 2)] :: (64 word \<times> nat) list"
  let ?s0 = "\<lparr>span_from = 0, span_to = 1, span_frequency = 100050\<rparr>"
  have h2: "Step example_scan = 0 \<and> List example_scan = [100000, 100100, 500000]
        \<and> LOOffset example_scan = 0
        \<and> getLOSpans_maxDf truncate_kHz example_scan example_settings = 300000"
    by (simp add: example_scan_def example_settings_def getLOSpans_maxDf_def getIFBandwidth_def
        bandwidthskHz_def truncate_kHz_def max_int32_def)
  have h1: "getScanFrequenciesAndIndexes example_scan = Some ?plan \<and> ?plan \<noteq> []"
    by code_simp
  from getLOSpans_center [of example_scan ?plan truncate_kHz example_settings 0] h2
  have a: "getLOSpans truncate_kHz example_scan example_settings
     = Some [?s0, \<lparr>span_from = 2, span_to = 2, span_frequency = 500000\<rparr>]"
    by blast
  have t: "span_targets ?plan ?s0 = [100000, 100100]"
    by (simp add: span_targets_def numeral_2_eq_2)
  have mm: "Min (set (span_targets ?plan ?s0)) = 100000" "Max (set (span_targets ?plan ?s0)) = 100100"
    unfolding t by simp_all
  from getLOSpans_center [of example_scan ?plan truncate_kHz example_settings 0] h1 a
  have "uint (Min (set (span_targets ?plan ?s0))) + uint (Max (set (span_targets ?plan ?s0))) < 2 ^ 64
        \<and> 0 \<le> (uint (Min (set (span_targets ?plan ?s0)))
                 + uint (Max (set (span_targets ?plan ?s0)))) div 2 + sint (LOOffset example_scan)
        \<and> (uint (Min (set (span_targets ?plan ?s0)))
             + uint (Max (set (span_targets ?plan ?s0)))) div 2 + sint (LOOffset example_scan) < 2 ^ 64
        \<longrightarrow> uint (span_frequency ?s0) =
              (uint (Min (set (span_targets ?plan ?s0)))
               + uint (Max (set (span_targets ?plan ?s0)))) div 2 + sint (LOOffset example_scan)"
    by auto
  then have b: "uint (100050 :: 64 word) = (uint (100000 :: 64 word) + uint (100100 :: 64 word)) div 2 + 0"
    unfolding mm by (simp add: example_scan_def)
  have h3: "Step ?scan1 = 0 \<and> List ?scan1 = [145000000]"
    by (simp add: example_scan_def)
  have h4: "uint (145000000 :: 64 word) < 2 ^ 63
      \<and> 0 \<le> uint (145000000 :: 64 word) + sint (LOOffset ?scan1)
      \<and> uint (145000000 :: 64 word) + sint (LOOffset ?scan1) < 2 ^ 64"
    by simp
  from getLOSpans_center [of ?scan1 "[]" truncate_kHz example_settings 145000000] h3 h4
  obtain center where r: "getLOSpans truncate_kHz ?scan1 example_settings
            = Some [\<lparr>span_from = 0, span_to = 0, span_frequency = center\<rparr>]"
    and u: "uint center = uint (145000000 :: 64 word) + sint (LOOffset ?scan1)"
    by blast
  from u have "uint center = uint (144900000 :: 64 word)" by simp
  then have "center = 144900000" by (simp only: word_uint_eq_iff)
  with r a b show ?thesis by simp
qed

section \<open>Properties: frequency plans\<close>

lemma map_upt_Suc_shift:
  "map g [0..<Suc n] = g 0 # map (\<lambda>i. g (Suc i)) [0..<n]"
proof -
  have "[0..<Suc n] = 0 # map Suc [0..<n]"
    by (simp only: upt_conv_Cons [of 0 "Suc n"] map_Suc_upt zero_less_Suc)
  then show ?thesis by (simp add: comp_def)
qed

text \<open>
  Where \<open>frequency += step\<close> cannot wrap around (\<open>stop + step\<close> is below \<open>2^64\<close>)
  the ascending loop ends, with the frequencies \<open>frequency\<close>, \<open>frequency + step\<close>, ...
  up to the last one that is not above \<open>stop\<close>.
\<close>

lemma rangeUp_plan:
  assumes step: "0 < unat step" and nowrap: "unat stop + unat step < 2 ^ 64"
    and le: "frequency \<le> stop"
  shows "rangeUp stop step frequency index =
     Some (map (\<lambda>i. (frequency + of_nat i * step, index + i))
             [0..<Suc ((unat stop - unat frequency) div unat step)])"
proof -
  have "(unat stop - unat frequency) div unat step = k \<Longrightarrow> frequency \<le> stop \<Longrightarrow>
     rangeUp stop step frequency index =
       Some (map (\<lambda>i. (frequency + of_nat i * step, index + i)) [0..<Suc k])" for k
  proof (induction k arbitrary: frequency index)
    case 0
    from "0.prems"(2) have fs: "unat frequency \<le> unat stop" by (simp add: word_le_nat_alt)
    from "0.prems"(1) step have "unat stop - unat frequency < unat step"
      by (simp add: div_eq_0_iff)
    with fs have gt: "unat stop < unat frequency + unat step" by linarith
    from fs nowrap have "unat frequency + unat step < 2 ^ LENGTH(64)" by simp
    then have u: "unat (frequency + step) = unat frequency + unat step"
      by (simp only: unat_add_lem)
    with gt have "\<not> frequency + step \<le> stop" by (simp add: word_le_nat_alt)
    then have "rangeUp stop step (frequency + step) (index + 1) = Some []"
      by (subst rangeUp.simps) simp
    then have "rangeUp stop step frequency index = Some [(frequency, index)]"
      using "0.prems"(2) by (subst rangeUp.simps) simp
    then show ?case by simp
  next
    case (Suc k)
    from Suc.prems(2) have fs: "unat frequency \<le> unat stop" by (simp add: word_le_nat_alt)
    have ge: "unat step \<le> unat stop - unat frequency"
    proof (rule ccontr)
      assume "\<not> unat step \<le> unat stop - unat frequency"
      then have "(unat stop - unat frequency) div unat step = 0" by simp
      with Suc.prems(1) show False by simp
    qed
    from fs nowrap have "unat frequency + unat step < 2 ^ LENGTH(64)" by simp
    then have u: "unat (frequency + step) = unat frequency + unat step"
      by (simp only: unat_add_lem)
    with ge fs have le1: "frequency + step \<le> stop" by (simp add: word_le_nat_alt)
    have "(unat stop - unat frequency) div unat step
        = Suc ((unat stop - unat frequency - unat step) div unat step)"
      using step ge by (rule le_div_geq)
    with Suc.prems(1) u have k: "(unat stop - unat (frequency + step)) div unat step = k"
      by simp
    from Suc.IH [OF k le1, of "index + 1"]
    have r: "rangeUp stop step (frequency + step) (index + 1) =
       Some (map (\<lambda>i. (frequency + step + of_nat i * step, index + 1 + i)) [0..<Suc k])" .
    have "rangeUp stop step frequency index =
       Some ((frequency, index) #
             map (\<lambda>i. (frequency + step + of_nat i * step, index + 1 + i)) [0..<Suc k])"
      using Suc.prems(2) r by (subst rangeUp.simps) simp
    also have "(frequency, index) #
             map (\<lambda>i. (frequency + step + of_nat i * step, index + 1 + i)) [0..<Suc k]
        = map (\<lambda>i. (frequency + of_nat i * step, index + i)) [0..<Suc (Suc k)]"
      by (subst map_upt_Suc_shift [of _ "Suc k"]) (simp add: algebra_simps)
    finally show ?case .
  qed
  with le show ?thesis by simp
qed

text \<open>
  The descending loop ends when its last frequency, the least one that is not below
  \<open>stop\<close>, is at least \<open>step\<close>, so that \<open>frequency -= step\<close> does not wrap around.
\<close>

lemma rangeDown_plan:
  assumes step: "0 < unat step"
    and nowrap: "unat step \<le> unat stop + (unat frequency - unat stop) mod unat step"
    and ge: "stop \<le> frequency"
  shows "rangeDown stop step frequency index =
     Some (map (\<lambda>i. (frequency - of_nat i * step, index + i))
             [0..<Suc ((unat frequency - unat stop) div unat step)])"
proof -
  have "(unat frequency - unat stop) div unat step = k \<Longrightarrow> stop \<le> frequency \<Longrightarrow>
     unat step \<le> unat stop + (unat frequency - unat stop) mod unat step \<Longrightarrow>
     rangeDown stop step frequency index =
       Some (map (\<lambda>i. (frequency - of_nat i * step, index + i)) [0..<Suc k])" for k
  proof (induction k arbitrary: frequency index)
    case 0
    from "0.prems"(2) have fs: "unat stop \<le> unat frequency" by (simp add: word_le_nat_alt)
    from "0.prems"(1) step have lt: "unat frequency - unat stop < unat step"
      by (simp add: div_eq_0_iff)
    with "0.prems"(3) fs have sf: "unat step \<le> unat frequency" by simp
    then have "step \<le> frequency" by (simp add: word_le_nat_alt)
    then have u: "unat (frequency - step) = unat frequency - unat step"
      by (rule unat_sub)
    with lt fs sf have "unat (frequency - step) < unat stop" by linarith
    then have "\<not> stop \<le> frequency - step" by (simp add: word_le_nat_alt)
    then have "rangeDown stop step (frequency - step) (index + 1) = Some []"
      by (subst rangeDown.simps) simp
    then have "rangeDown stop step frequency index = Some [(frequency, index)]"
      using "0.prems"(2) by (subst rangeDown.simps) simp
    then show ?case by simp
  next
    case (Suc k)
    from Suc.prems(2) have fs: "unat stop \<le> unat frequency" by (simp add: word_le_nat_alt)
    have ge: "unat step \<le> unat frequency - unat stop"
    proof (rule ccontr)
      assume "\<not> unat step \<le> unat frequency - unat stop"
      then have "(unat frequency - unat stop) div unat step = 0" by simp
      with Suc.prems(1) show False by simp
    qed
    with fs have sf: "unat step \<le> unat frequency" by linarith
    then have "step \<le> frequency" by (simp add: word_le_nat_alt)
    then have u: "unat (frequency - step) = unat frequency - unat step"
      by (rule unat_sub)
    with ge fs have ge1: "stop \<le> frequency - step" by (simp add: word_le_nat_alt)
    have d: "unat (frequency - step) - unat stop = unat frequency - unat stop - unat step"
      using u by simp
    have "(unat frequency - unat stop) div unat step
        = Suc ((unat frequency - unat stop - unat step) div unat step)"
      using step ge by (rule le_div_geq)
    with Suc.prems(1) d have k: "(unat (frequency - step) - unat stop) div unat step = k"
      by simp
    have "(unat frequency - unat stop) mod unat step
        = (unat frequency - unat stop - unat step) mod unat step"
      using ge by (rule le_mod_geq)
    with Suc.prems(3) d
    have m: "unat step \<le> unat stop + (unat (frequency - step) - unat stop) mod unat step"
      by simp
    from Suc.IH [OF k ge1 m, of "index + 1"]
    have r: "rangeDown stop step (frequency - step) (index + 1) =
       Some (map (\<lambda>i. (frequency - step - of_nat i * step, index + 1 + i)) [0..<Suc k])" .
    have "rangeDown stop step frequency index =
       Some ((frequency, index) #
             map (\<lambda>i. (frequency - step - of_nat i * step, index + 1 + i)) [0..<Suc k])"
      using Suc.prems(2) r by (subst rangeDown.simps) simp
    also have "(frequency, index) #
             map (\<lambda>i. (frequency - step - of_nat i * step, index + 1 + i)) [0..<Suc k]
        = map (\<lambda>i. (frequency - of_nat i * step, index + i)) [0..<Suc (Suc k)]"
      by (subst map_upt_Suc_shift [of _ "Suc k"]) (simp add: algebra_simps)
    finally show ?case .
  qed
  with ge nowrap show ?thesis by simp
qed

lemma sless_0_unat: "0 <s (w :: 64 word) \<Longrightarrow> 0 < unat w"
  by (cases "w = 0") (auto simp: unat_gt_0)

lemma getScanFrequenciesAndIndexes_ascending:
  assumes "0 <s Step scan" and "Start scan \<le> Stop scan"
    and "unat (Stop scan) + unat (Step scan) < 2 ^ 64"
  shows "getScanFrequenciesAndIndexes scan =
     Some (map (\<lambda>i. (Start scan + of_nat i * Step scan, i))
             [0..<Suc ((unat (Stop scan) - unat (Start scan)) div unat (Step scan))])"
  using assms rangeUp_plan [OF sless_0_unat [OF assms(1)] assms(3) assms(2), of 0]
  by (simp add: getScanFrequenciesAndIndexes_def)

lemma getScanFrequenciesAndIndexes_descending:
  assumes "Step scan <s 0" and "Stop scan \<le> Start scan"
    and "unat (- Step scan)
          \<le> unat (Stop scan) + (unat (Start scan) - unat (Stop scan)) mod unat (- Step scan)"
  shows "getScanFrequenciesAndIndexes scan =
     Some (map (\<lambda>i. (Start scan - of_nat i * (- Step scan), i))
             [0..<Suc ((unat (Start scan) - unat (Stop scan)) div unat (- Step scan))])"
proof -
  from assms(1) have n: "\<not> 0 <s Step scan" and nz: "Step scan \<noteq> 0"
    by (auto simp: word_sless_alt)
  from nz have "- Step scan \<noteq> 0" by simp
  then have p: "0 < unat (- Step scan)" by (simp add: unat_gt_0)
  from rangeDown_plan [OF p assms(3) assms(2), of 0] assms(1) n show ?thesis
    by (simp add: getScanFrequenciesAndIndexes_def)
qed

text \<open>The descending loop with stop frequency 0 never ends: \<open>frequency >= 0\<close> always holds.\<close>

lemma rangeDown_stop_0:
  "rangeDown stop step frequency index = Some plan \<Longrightarrow> stop \<noteq> 0"
proof (rule rangeDown.raw_induct [where P = "\<lambda>stop step frequency index plan. stop \<noteq> 0"])
  fix rd :: "64 word \<Rightarrow> 64 word \<Rightarrow> 64 word \<Rightarrow> nat \<Rightarrow> (64 word \<times> nat) list option"
  fix stop step frequency :: "64 word" and index :: nat and plan
  assume IH: "\<And>stop step frequency index plan.
     rd stop step frequency index = Some plan \<Longrightarrow> stop \<noteq> 0"
  assume body: "(if stop \<le> frequency
      then Option.bind (rd stop step (frequency - step) (index + 1))
            (\<lambda>rest. Some ((frequency, index) # rest))
      else Some []) = Some plan"
  show "stop \<noteq> 0"
  proof
    assume "stop = 0"
    with body obtain rest where "rd 0 step (frequency - step) (index + 1) = Some rest"
      by (auto simp: bind_eq_Some_conv)
    from IH [OF this] show False by simp
  qed
qed

text \<open>
  C8 fails on the code: the plan of \<open>range = 10, 0, -10\<close> (start 10, stop 0, step -10,
  which the validation accepts) is never completed. After 10 and 0 the uint64 frequency
  wraps around to \<open>2^64 - 10\<close> and the loop goes on without end, where the claim gives
  the sequence 10, 0.
\<close>

theorem getScanFrequenciesAndIndexes_descending_to_0:
  "getScanFrequenciesAndIndexes (example_scan\<lparr>Start := 10, Stop := 0, Step := - 10\<rparr>) = None"
  using rangeDown_stop_0 [of 0 10 10 0]
  by (cases "rangeDown 0 10 10 0")
     (auto simp: getScanFrequenciesAndIndexes_def example_scan_def word_sless_alt)

end
